theory Spec2Isabelle
  imports
    Complex_Main
    "HOL-Library.Sublist"
    "HOL-Library.Char_ord"
    "HOL-Library.List_Lexorder"
    "HOL-Library.Product_Lexorder"
    "HOL-Library.AList"
    "HOL-Library.Multiset"
begin

section \<open>Python strings\<close>

text \<open>
  A Python \<open>str\<close> is modelled as a \<open>string\<close>, one \<open>char\<close> for each code point; the
  model therefore covers the texts whose code points lie below 256. \<open>len\<close> is \<open>length\<close>.
  The order on strings (Python compares code point by code point, a proper prefix
  being smaller) is the lexicographic order of \<open>HOL-Library.List_Lexorder\<close> over
  \<open>HOL-Library.Char_ord\<close>.
\<close>

definition is_space :: "char \<Rightarrow> bool" where
  \<comment> \<open>\<open>str.isspace\<close> on one code point: what \<open>split()\<close>, \<open>strip()\<close> and \<open>rstrip()\<close> remove\<close>
  "is_space c = (c \<in> set [CHR 0x09, CHR 0x0A, CHR 0x0B, CHR 0x0C, CHR 0x0D,
                            CHR 0x1C, CHR 0x1D, CHR 0x1E, CHR 0x1F, CHR 0x20,
                            CHR 0x85, CHR 0xA0])"

definition py_lstrip :: "string \<Rightarrow> string" where
  "py_lstrip s = dropWhile is_space s"

definition py_rstrip :: "string \<Rightarrow> string" where
  "py_rstrip s = rev (dropWhile is_space (rev s))"

definition py_strip :: "string \<Rightarrow> string" where
  "py_strip s = py_rstrip (py_lstrip s)"

fun split_runs :: "(char \<Rightarrow> bool) \<Rightarrow> string \<Rightarrow> string \<Rightarrow> string list" where
  \<comment> \<open>the pieces between runs of separator characters, empty pieces dropped;
      the second argument is the piece being read\<close>
  "split_runs sep cur [] = (if cur = [] then [] else [cur])"
| "split_runs sep cur (c # cs) =
     (if sep c then (if cur = [] then split_runs sep [] cs else cur # split_runs sep [] cs)
      else split_runs sep (cur @ [c]) cs)"

definition py_split :: "string \<Rightarrow> string list" where
  \<comment> \<open>\<open>s.split()\<close> with no argument\<close>
  "py_split s = split_runs is_space [] s"

fun py_join :: "string \<Rightarrow> string list \<Rightarrow> string" where
  \<comment> \<open>\<open>sep.join(xs)\<close>\<close>
  "py_join sep [] = []"
| "py_join sep [x] = x"
| "py_join sep (x # y # ys) = x @ sep @ py_join sep (y # ys)"

definition slice_end :: "'a list \<Rightarrow> int \<Rightarrow> nat" where
  \<comment> \<open>the end index Python uses for \<open>xs[:e]\<close>: a negative \<open>e\<close> counts from the end,
      and the index is clamped to \<open>0 .. len(xs)\<close>\<close>
  "slice_end xs e = (if e < 0 then nat (int (length xs) + e) else min (nat e) (length xs))"

definition py_take :: "int \<Rightarrow> 'a list \<Rightarrow> 'a list" where
  \<comment> \<open>\<open>xs[:e]\<close>\<close>
  "py_take e xs = take (slice_end xs e) xs"

fun last_index :: "'a \<Rightarrow> 'a list \<Rightarrow> nat option" where
  \<comment> \<open>the highest index holding \<open>c\<close>\<close>
  "last_index c [] = None"
| "last_index c (x # xs) =
     (case last_index c xs of
        Some i \<Rightarrow> Some (Suc i)
      | None \<Rightarrow> (if x = c then Some 0 else None))"

definition py_rfind :: "char \<Rightarrow> string \<Rightarrow> int \<Rightarrow> int" where
  \<comment> \<open>\<open>s.rfind(c, 0, e)\<close> for a one-character needle: the highest index below the
      end index that holds \<open>c\<close>, or \<open>-1\<close>\<close>
  "py_rfind c s e = (case last_index c (py_take e s) of None \<Rightarrow> - 1 | Some i \<Rightarrow> int i)"

definition py_in :: "string \<Rightarrow> string \<Rightarrow> bool" where
  \<comment> \<open>\<open>sub in s\<close> on strings: \<open>sub\<close> occurs in \<open>s\<close> as a contiguous piece\<close>
  "py_in sub s = sublist sub s"

section \<open>compression.py: compress_text\<close>

definition is_delim :: "char \<Rightarrow> bool" where
  \<comment> \<open>the character class \<open>[.!?]\<close>\<close>
  "is_delim c = (c = CHR ''.'' \<or> c = CHR ''!'' \<or> c = CHR ''?'')"

fun re_split_delims :: "string \<Rightarrow> string \<Rightarrow> string list" where
  \<comment> \<open>\<open>re.split(r"([.!?])", s)\<close>: the pieces between delimiters, each delimiter kept as
      a piece of its own (the pattern has a capture group); pieces may be empty\<close>
  "re_split_delims cur [] = [cur]"
| "re_split_delims cur (c # cs) =
     (if is_delim c then cur # [c] # re_split_delims [] cs
      else re_split_delims (cur @ [c]) cs)"

fun sentence_loop :: "string list \<Rightarrow> string list \<times> string \<Rightarrow> string list \<times> string" where
  \<comment> \<open>the loop \<open>for part in parts\<close>; the state is \<open>(sentences, current)\<close>.
      \<open>part in ".!?"\<close> is Python's substring test\<close>
  "sentence_loop [] st = st"
| "sentence_loop (part # parts) (sentences, current) =
     (if part = [] then sentence_loop parts (sentences, current)
      else
        let current = current @ part in
        if py_in part ''.!?'' then
          let sentence = py_strip current in
          sentence_loop parts
            ((if sentence \<noteq> [] then sentences @ [sentence] else sentences), [])
        else sentence_loop parts (sentences, current))"

fun dedup_seen :: "'a set \<Rightarrow> 'a list \<Rightarrow> 'a list" where
  \<comment> \<open>the loop \<open>for s in sentences: if s in seen: continue; seen.add(s); out.append(s)\<close>\<close>
  "dedup_seen seen [] = []"
| "dedup_seen seen (s # ss) =
     (if s \<in> seen then dedup_seen seen ss else s # dedup_seen (insert s seen) ss)"

definition split_sentences :: "string \<Rightarrow> string list" where
  \<comment> \<open>lines 66 to 79 of compression.py: from the cleaned text to \<open>sentences\<close>\<close>
  "split_sentences cleaned =
     (case sentence_loop (re_split_delims [] cleaned) ([], []) of
        (sentences, current) \<Rightarrow>
          (if current \<noteq> [] then sentences @ [py_strip current] else sentences))"

definition truncate_result :: "string \<Rightarrow> int \<Rightarrow> string" where
  \<comment> \<open>lines 91 to 97 of compression.py\<close>
  "truncate_result result max_chars =
     (if int (length result) \<le> max_chars then result
      else
        let cut = py_rfind (CHR '' '') result max_chars in
        if cut = - 1 then py_take max_chars result
        else py_rstrip (py_take cut result))"

definition compress_text :: "string \<Rightarrow> int \<Rightarrow> string" where
  "compress_text text max_chars =
     (let cleaned = py_join '' '' (py_split (py_strip text)) in
      if cleaned = [] then []
      else
        let sentences = split_sentences cleaned;
            unique_sentences = dedup_seen {} sentences;
            result = py_join '' '' unique_sentences
        in truncate_result result max_chars)"

section \<open>compression.py: keyword extraction\<close>

definition py_lower_char :: "char \<Rightarrow> char" where
  \<comment> \<open>\<open>str.lower\<close> on one code point below 256: \<open>A\<close> to \<open>Z\<close> and the Latin-1
      capitals \<open>0xC0\<close> to \<open>0xDE\<close> (but not \<open>0xD7\<close>) move up by 32\<close>
  "py_lower_char c =
     (let n = (of_char c :: nat) in
      if (65 \<le> n \<and> n \<le> 90) \<or> (192 \<le> n \<and> n \<le> 214) \<or> (216 \<le> n \<and> n \<le> 222)
      then char_of (n + 32) else c)"

definition py_lower :: "string \<Rightarrow> string" where
  "py_lower s = map py_lower_char s"

definition is_tok_char :: "char \<Rightarrow> bool" where
  \<comment> \<open>the character class \<open>[a-z0-9_]\<close>\<close>
  "is_tok_char c =
     ((CHR ''a'' \<le> c \<and> c \<le> CHR ''z'') \<or> (CHR ''0'' \<le> c \<and> c \<le> CHR ''9'') \<or> c = CHR ''_'')"

definition tokenize :: "string \<Rightarrow> string list" where
  \<comment> \<open>\<open>_tokenize\<close>: \<open>re.split(r"[^a-z0-9_]+", text.lower())\<close> cuts at every run of
      characters outside the class; the comprehension \<open>if t\<close> drops the empty pieces\<close>
  "tokenize text = split_runs (\<lambda>c. \<not> is_tok_char c) [] (py_lower text)"

definition STOPWORDS :: "string set" where
  "STOPWORDS = set
    [''the'', ''and'', ''a'', ''an'', ''of'', ''to'', ''in'', ''for'', ''on'', ''at'',
     ''is'', ''are'', ''was'', ''were'', ''be'', ''been'', ''with'', ''as'', ''by'',
     ''or'', ''if'', ''then'', ''so'', ''we'', ''i'', ''you'', ''it'', ''that'', ''this'',
     ''but'', ''from'', ''our'', ''their'', ''they'', ''them'', ''my'', ''your'']"

fun counter_add :: "(string \<times> int) list \<Rightarrow> string \<Rightarrow> (string \<times> int) list" where
  \<comment> \<open>\<open>counter[tok] += 1\<close> on a \<open>Counter\<close>, a dict in insertion order: a missing
      key counts as 0 and is added at the end\<close>
  "counter_add [] tok = [(tok, 1)]"
| "counter_add ((k, n) # kvs) tok =
     (if k = tok then (k, n + 1) # kvs else (k, n) # counter_add kvs tok)"

definition count_tokens :: "(string \<times> int) list \<Rightarrow> string list \<Rightarrow> (string \<times> int) list" where
  \<comment> \<open>the inner loop \<open>for tok in _tokenize(text)\<close>\<close>
  "count_tokens counter toks =
     foldl (\<lambda>counter tok. if tok \<in> STOPWORDS then counter else counter_add counter tok)
       counter toks"

definition count_texts :: "string list \<Rightarrow> (string \<times> int) list" where
  \<comment> \<open>the outer loop \<open>for text in texts\<close>, from the empty counter\<close>
  "count_texts texts = foldl (\<lambda>counter text. count_tokens counter (tokenize text)) [] texts"

definition extract_keywords :: "string list \<Rightarrow> int \<Rightarrow> string list" where
  "extract_keywords texts max_keywords =
     (let counter = count_texts texts in
      if counter = [] then []
      else
        let items = sort_key (\<lambda>kv. (- snd kv, fst kv)) counter
        in map fst (py_take max_keywords items))"

section \<open>schema.py: the records\<close>

record SemanticMemory =
  concepts :: "string list"
  "notes" :: string

record ProceduralMemory =
  workflows :: "string list"
  checklists :: "string list"

record ProjectState =
  project_name :: string
  summary :: string
  active_workstream :: string
  pending_tasks :: "string list"
  constraints :: "string list"

text \<open>
  A \<open>Dict[str, str]\<close> is an association list in insertion order. The fields
  \<open>constraints\<close> and \<open>active_workstream\<close> occur in two classes each; they are written
  with the record's name in front.
\<close>

record Preferences =
  style :: string
  tone :: string
  constraints :: "string list"
  other :: "(string \<times> string) list"

record RecapFrame =
  timestamp :: string
  key_topics :: "string list"
  distilled_user_intent :: string
  distilled_system_output :: string
  tags :: "string list"
  semantic :: SemanticMemory
  procedural :: ProceduralMemory
  project_state :: ProjectState
  preferences :: Preferences
  raw_user_message :: string
  raw_assistant_message :: string

record ContextBundle =
  project_summary :: string
  active_workstream :: string
  user_prefs :: Preferences
  known_constraints :: "string list"
  recommended_next_steps :: "string list"
  supporting_frames :: "RecapFrame list"

section \<open>compression.py: compress_frame\<close>

fun dedup_tags :: "string set \<Rightarrow> string list \<Rightarrow> string list" where
  \<comment> \<open>the loop over \<open>frame.tags\<close>\<close>
  "dedup_tags seen [] = []"
| "dedup_tags seen (tag # rest) =
     (let t = py_lower (py_strip tag) in
      if t = [] \<or> t \<in> seen then dedup_tags seen rest
      else t # dedup_tags (insert t seen) rest)"

fun dedup_list :: "string set \<Rightarrow> string list \<Rightarrow> string list" where
  \<comment> \<open>the local function \<open>dedup_list\<close> (and \<open>dedup\<close> of retrieval.py, the same loop)\<close>
  "dedup_list seen [] = []"
| "dedup_list seen (v # rest) =
     (let vv = py_strip v in
      if vv = [] \<or> vv \<in> seen then dedup_list seen rest
      else vv # dedup_list (insert vv seen) rest)"

definition compress_frame :: "RecapFrame \<Rightarrow> int \<Rightarrow> RecapFrame" where
  "compress_frame frame max_text_chars =
     (let frame = frame\<lparr>distilled_user_intent :=
                    compress_text (distilled_user_intent frame) max_text_chars\<rparr>;
          frame = frame\<lparr>distilled_system_output :=
                    compress_text (distilled_system_output frame) max_text_chars\<rparr>;
          frame = frame\<lparr>raw_user_message :=
                    compress_text (raw_user_message frame) max_text_chars\<rparr>;
          frame = frame\<lparr>raw_assistant_message :=
                    compress_text (raw_assistant_message frame) max_text_chars\<rparr>;
          all_text = [distilled_user_intent frame, distilled_system_output frame,
                      notes (semantic frame), summary (project_state frame),
                      raw_user_message frame, raw_assistant_message frame];
          frame = frame\<lparr>key_topics := extract_keywords all_text 12\<rparr>;
          frame = frame\<lparr>tags := sort (dedup_tags {} (tags frame))\<rparr>;
          frame = frame\<lparr>semantic := (semantic frame)
                    \<lparr>concepts := dedup_list {} (concepts (semantic frame))\<rparr>\<rparr>;
          frame = frame\<lparr>procedural := (procedural frame)
                    \<lparr>workflows := dedup_list {} (workflows (procedural frame))\<rparr>\<rparr>;
          frame = frame\<lparr>procedural := (procedural frame)
                    \<lparr>checklists := dedup_list {} (checklists (procedural frame))\<rparr>\<rparr>;
          frame = frame\<lparr>project_state := (project_state frame)
                    \<lparr>pending_tasks := dedup_list {} (pending_tasks (project_state frame))\<rparr>\<rparr>;
          frame = frame\<lparr>project_state := (project_state frame)
                    \<lparr>ProjectState.constraints :=
                       dedup_list {} (ProjectState.constraints (project_state frame))\<rparr>\<rparr>;
          frame = frame\<lparr>preferences := (preferences frame)
                    \<lparr>Preferences.constraints :=
                       dedup_list {} (Preferences.constraints (preferences frame))\<rparr>\<rparr>
      in frame)"

section \<open>schema.py: to_dict and from_dict\<close>

text \<open>
  The values \<open>json.loads\<close> returns and \<open>json.dumps\<close> accepts: \<open>None\<close>, booleans,
  integers, floats, strings, lists, and dicts with string keys in insertion order. A
  float is the rational it stands for, or \<open>JFloat None\<close> for \<open>NaN\<close> and the infinities,
  which \<open>json.loads\<close> accepts too. \<open>d.get(k)\<close> is \<open>map_of\<close>; a \<open>JObj\<close> that repeats a
  key stands for no Python dict.
\<close>

datatype json =
    JNull
  | JBool bool
  | JInt int
  | JFloat "rat option"
  | JStr string
  | JArr "json list"
  | JObj "(string \<times> json) list"

datatype py_error =
    AttributeError
  | TypeError
  | IndexError
  | ValueError
  | RecursionError
  | UnicodeDecodeError

text \<open>
  What a call does: it returns a value, it raises, or (\<open>Unmodelled\<close>) it does something
  this model does not compute, because the value Python builds there does not fit the
  declared field types or is not computed here (\<open>str\<close> of a float, a list or a dict,
  a list or dict with members that are not strings). Nothing is stated about \<open>Unmodelled\<close>
  calls.
\<close>

datatype 'a outcome = Returns 'a | Raises py_error | Unmodelled

definition obind :: "'a outcome \<Rightarrow> ('a \<Rightarrow> 'b outcome) \<Rightarrow> 'b outcome" where
  \<comment> \<open>evaluate one argument, then the rest: the first call that does not return decides\<close>
  "obind m f = (case m of Returns x \<Rightarrow> f x | Raises e \<Rightarrow> Raises e | Unmodelled \<Rightarrow> Unmodelled)"

definition SemanticMemory_to_dict :: "SemanticMemory \<Rightarrow> json" where
  "SemanticMemory_to_dict m =
     JObj [(''concepts'', JArr (map JStr (concepts m))), (''notes'', JStr (notes m))]"

definition ProceduralMemory_to_dict :: "ProceduralMemory \<Rightarrow> json" where
  "ProceduralMemory_to_dict m =
     JObj [(''workflows'', JArr (map JStr (workflows m))),
           (''checklists'', JArr (map JStr (checklists m)))]"

definition ProjectState_to_dict :: "ProjectState \<Rightarrow> json" where
  "ProjectState_to_dict m =
     JObj [(''project_name'', JStr (project_name m)),
           (''summary'', JStr (summary m)),
           (''active_workstream'', JStr (ProjectState.active_workstream m)),
           (''pending_tasks'', JArr (map JStr (pending_tasks m))),
           (''constraints'', JArr (map JStr (ProjectState.constraints m)))]"

definition Preferences_to_dict :: "Preferences \<Rightarrow> json" where
  "Preferences_to_dict m =
     JObj [(''style'', JStr (style m)),
           (''tone'', JStr (tone m)),
           (''constraints'', JArr (map JStr (Preferences.constraints m))),
           (''other'', JObj (map (\<lambda>kv. (fst kv, JStr (snd kv))) (other m)))]"

definition RecapFrame_to_dict :: "RecapFrame \<Rightarrow> json" where
  "RecapFrame_to_dict f =
     JObj [(''timestamp'', JStr (timestamp f)),
           (''key_topics'', JArr (map JStr (key_topics f))),
           (''distilled_user_intent'', JStr (distilled_user_intent f)),
           (''distilled_system_output'', JStr (distilled_system_output f)),
           (''tags'', JArr (map JStr (tags f))),
           (''semantic'', SemanticMemory_to_dict (semantic f)),
           (''procedural'', ProceduralMemory_to_dict (procedural f)),
           (''project_state'', ProjectState_to_dict (project_state f)),
           (''preferences'', Preferences_to_dict (preferences f)),
           (''raw_user_message'', JStr (raw_user_message f)),
           (''raw_assistant_message'', JStr (raw_assistant_message f))]"

fun truthy :: "json \<Rightarrow> bool" where
  \<comment> \<open>Python's truth value, as \<open>if not data\<close> tests it\<close>
  "truthy JNull = False"
| "truthy (JBool b) = b"
| "truthy (JInt n) = (n \<noteq> 0)"
| "truthy (JFloat x) = (x \<noteq> Some 0)"
| "truthy (JStr s) = (s \<noteq> [])"
| "truthy (JArr xs) = (xs \<noteq> [])"
| "truthy (JObj kvs) = (kvs \<noteq> [])"

fun is_JStr :: "json \<Rightarrow> bool" where
  "is_JStr (JStr s) = True"
| "is_JStr _ = False"

fun str_of :: "json \<Rightarrow> string" where
  "str_of (JStr s) = s"
| "str_of _ = []"

function decimal :: "int \<Rightarrow> string" where
  \<comment> \<open>the decimal digits of an integer that is not negative\<close>
  "decimal n =
     (if n < 10 then [char_of (48 + n)]
      else decimal (n div 10) @ [char_of (48 + n mod 10)])"
  by pat_completeness auto
termination
  by (relation "measure nat") auto

definition str_int :: "int \<Rightarrow> string" where
  \<comment> \<open>\<open>str(n)\<close> of an \<open>int\<close>\<close>
  "str_int n = (if n < 0 then CHR ''-'' # decimal (- n) else decimal n)"

fun py_str :: "json option \<Rightarrow> string outcome" where
  \<comment> \<open>\<open>str(data.get(key, ""))\<close>; the argument is \<open>data.get(key)\<close>, \<open>None\<close> for a missing key.
      \<open>str\<close> never raises; of a float, a list or a dict it gives the \<open>repr\<close>, which is
      not computed here\<close>
  "py_str None = Returns []"
| "py_str (Some (JStr s)) = Returns s"
| "py_str (Some JNull) = Returns ''None''"
| "py_str (Some (JBool b)) = Returns (if b then ''True'' else ''False'')"
| "py_str (Some (JInt n)) = Returns (str_int n)"
| "py_str (Some (JFloat x)) = Unmodelled"
| "py_str (Some (JArr xs)) = Unmodelled"
| "py_str (Some (JObj kvs)) = Unmodelled"

fun py_list :: "json option \<Rightarrow> string list outcome" where
  \<comment> \<open>\<open>list(data.get(key, []))\<close>: a string gives its characters, a dict its keys,
      \<open>None\<close>, a boolean or a number is not iterable\<close>
  "py_list None = Returns []"
| "py_list (Some (JArr xs)) = (if list_all is_JStr xs then Returns (map str_of xs) else Unmodelled)"
| "py_list (Some (JStr s)) = Returns (map (\<lambda>c. [c]) s)"
| "py_list (Some (JObj kvs)) = Returns (map fst kvs)"
| "py_list (Some _) = Raises TypeError"

fun py_dict :: "json option \<Rightarrow> (string \<times> string) list outcome" where
  \<comment> \<open>\<open>dict(data.get(key, {}))\<close>\<close>
  "py_dict None = Returns []"
| "py_dict (Some (JObj kvs)) =
     (if list_all (\<lambda>kv. is_JStr (snd kv)) kvs
      then Returns (map (\<lambda>kv. (fst kv, str_of (snd kv))) kvs) else Unmodelled)"
| "py_dict (Some (JArr xs)) = (if xs = [] then Returns [] else Unmodelled)"
| "py_dict (Some (JStr s)) = (if s = [] then Returns [] else Unmodelled)"
| "py_dict (Some _) = Raises TypeError"

definition SemanticMemory_default :: SemanticMemory where
  "SemanticMemory_default = \<lparr>concepts = [], notes = []\<rparr>"

definition ProceduralMemory_default :: ProceduralMemory where
  "ProceduralMemory_default = \<lparr>workflows = [], checklists = []\<rparr>"

definition ProjectState_default :: ProjectState where
  "ProjectState_default =
     \<lparr>project_name = [], summary = [], ProjectState.active_workstream = [],
      pending_tasks = [], ProjectState.constraints = []\<rparr>"

definition Preferences_default :: Preferences where
  "Preferences_default = \<lparr>style = [], tone = [], Preferences.constraints = [], other = []\<rparr>"

definition SemanticMemory_from_dict :: "json option \<Rightarrow> SemanticMemory outcome" where
  \<comment> \<open>the argument is \<open>data.get("semantic")\<close>: \<open>None\<close> for a missing key. A value that is
      true and not a dict has no \<open>get\<close>\<close>
  "SemanticMemory_from_dict data =
     (case data of
        None \<Rightarrow> Returns SemanticMemory_default
      | Some j \<Rightarrow>
          if \<not> truthy j then Returns SemanticMemory_default
          else (case j of
                  JObj kvs \<Rightarrow>
                    obind (py_list (map_of kvs ''concepts'')) (\<lambda>c.
                    obind (py_str (map_of kvs ''notes'')) (\<lambda>n.
                    Returns \<lparr>concepts = c, notes = n\<rparr>))
                | _ \<Rightarrow> Raises AttributeError))"

definition ProceduralMemory_from_dict :: "json option \<Rightarrow> ProceduralMemory outcome" where
  "ProceduralMemory_from_dict data =
     (case data of
        None \<Rightarrow> Returns ProceduralMemory_default
      | Some j \<Rightarrow>
          if \<not> truthy j then Returns ProceduralMemory_default
          else (case j of
                  JObj kvs \<Rightarrow>
                    obind (py_list (map_of kvs ''workflows'')) (\<lambda>w.
                    obind (py_list (map_of kvs ''checklists'')) (\<lambda>c.
                    Returns \<lparr>workflows = w, checklists = c\<rparr>))
                | _ \<Rightarrow> Raises AttributeError))"

definition ProjectState_from_dict :: "json option \<Rightarrow> ProjectState outcome" where
  "ProjectState_from_dict data =
     (case data of
        None \<Rightarrow> Returns ProjectState_default
      | Some j \<Rightarrow>
          if \<not> truthy j then Returns ProjectState_default
          else (case j of
                  JObj kvs \<Rightarrow>
                    obind (py_str (map_of kvs ''project_name'')) (\<lambda>pn.
                    obind (py_str (map_of kvs ''summary'')) (\<lambda>su.
                    obind (py_str (map_of kvs ''active_workstream'')) (\<lambda>aw.
                    obind (py_list (map_of kvs ''pending_tasks'')) (\<lambda>pt.
                    obind (py_list (map_of kvs ''constraints'')) (\<lambda>co.
                    Returns \<lparr>project_name = pn, summary = su,
                             ProjectState.active_workstream = aw, pending_tasks = pt,
                             ProjectState.constraints = co\<rparr>)))))
                | _ \<Rightarrow> Raises AttributeError))"

definition Preferences_from_dict :: "json option \<Rightarrow> Preferences outcome" where
  "Preferences_from_dict data =
     (case data of
        None \<Rightarrow> Returns Preferences_default
      | Some j \<Rightarrow>
          if \<not> truthy j then Returns Preferences_default
          else (case j of
                  JObj kvs \<Rightarrow>
                    obind (py_str (map_of kvs ''style'')) (\<lambda>st.
                    obind (py_str (map_of kvs ''tone'')) (\<lambda>tn.
                    obind (py_list (map_of kvs ''constraints'')) (\<lambda>co.
                    obind (py_dict (map_of kvs ''other'')) (\<lambda>ot.
                    Returns \<lparr>style = st, tone = tn, Preferences.constraints = co,
                             other = ot\<rparr>))))
                | _ \<Rightarrow> Raises AttributeError))"

definition RecapFrame_from_dict :: "json \<Rightarrow> RecapFrame outcome" where
  \<comment> \<open>the keyword arguments are evaluated in the order they are written; \<open>data.get\<close>
      exists on a dict only\<close>
  "RecapFrame_from_dict data =
     (case data of
        JObj kvs \<Rightarrow>
          obind (py_str (map_of kvs ''timestamp'')) (\<lambda>ts.
          obind (py_list (map_of kvs ''key_topics'')) (\<lambda>kt.
          obind (py_str (map_of kvs ''distilled_user_intent'')) (\<lambda>ui.
          obind (py_str (map_of kvs ''distilled_system_output'')) (\<lambda>so.
          obind (py_list (map_of kvs ''tags'')) (\<lambda>tg.
          obind (SemanticMemory_from_dict (map_of kvs ''semantic'')) (\<lambda>se.
          obind (ProceduralMemory_from_dict (map_of kvs ''procedural'')) (\<lambda>pr.
          obind (ProjectState_from_dict (map_of kvs ''project_state'')) (\<lambda>ps.
          obind (Preferences_from_dict (map_of kvs ''preferences'')) (\<lambda>pf.
          obind (py_str (map_of kvs ''raw_user_message'')) (\<lambda>ru.
          obind (py_str (map_of kvs ''raw_assistant_message'')) (\<lambda>ra.
          Returns \<lparr>timestamp = ts, key_topics = kt, distilled_user_intent = ui,
                   distilled_system_output = so, tags = tg, semantic = se,
                   procedural = pr, project_state = ps, preferences = pf,
                   raw_user_message = ru, raw_assistant_message = ra\<rparr>)))))))))))
      | _ \<Rightarrow> Raises AttributeError)"

section \<open>storage.py\<close>

text \<open>
  The memory file is the list of its lines, and a line is what \<open>load_all\<close> sees of it:
  \<open>Undecodable\<close> when its bytes are not UTF-8, so that reading it raises
  \<open>UnicodeDecodeError\<close>; \<open>Blank\<close> when \<open>line.strip()\<close> is empty; \<open>Garbage\<close> when
  \<open>json.loads\<close> raises \<open>JSONDecodeError\<close>; \<open>Fails e\<close> when \<open>json.loads\<close> raises another
  exception \<open>e\<close> (\<open>RecursionError\<close> for brackets nested too deep, \<open>ValueError\<close> for an
  integer of too many digits); \<open>Parsed j\<close> when \<open>json.loads\<close> returns \<open>j\<close>. The file is
  decoded a buffer at a time, so the error of an undecodable line can come before the
  error of an earlier line of its buffer; the model raises in line order. A file that
  does not exist is the empty list. \<open>json.dumps\<close> writes one line without a line break, and
  \<open>json.loads\<close> of that line returns a dict equal to the one written (with
  \<open>sort_keys=True\<close> its keys come back sorted; dict equality does not look at the
  order, and the model keeps the pairs as written).
\<close>

datatype line = Undecodable | Blank | Garbage | Fails py_error | Parsed json

type_synonym store = "line list"

definition MAX_FRAMES :: int where
  "MAX_FRAMES = 300"

definition slice_start :: "'a list \<Rightarrow> int \<Rightarrow> nat" where
  \<comment> \<open>the start index Python uses for \<open>xs[s:]\<close>\<close>
  "slice_start xs s = (if s < 0 then nat (int (length xs) + s) else min (nat s) (length xs))"

definition py_drop :: "int \<Rightarrow> 'a list \<Rightarrow> 'a list" where
  \<comment> \<open>\<open>xs[s:]\<close>\<close>
  "py_drop s xs = drop (slice_start xs s) xs"

fun load_lines :: "line list \<Rightarrow> RecapFrame list \<Rightarrow> RecapFrame list outcome" where
  \<comment> \<open>the loop \<open>for line in f\<close>; the second argument is \<open>frames\<close>. Only
      \<open>JSONDecodeError\<close> is caught: every other exception ends the loop and leaves
      \<open>load_all\<close>\<close>
  "load_lines [] frames = Returns frames"
| "load_lines (Undecodable # ls) frames = Raises UnicodeDecodeError"
| "load_lines (Blank # ls) frames = load_lines ls frames"
| "load_lines (Garbage # ls) frames = load_lines ls frames"
| "load_lines (Fails e # ls) frames = Raises e"
| "load_lines (Parsed j # ls) frames =
     (case RecapFrame_from_dict j of
        Returns f \<Rightarrow> load_lines ls (frames @ [f])
      | Raises e \<Rightarrow> Raises e
      | Unmodelled \<Rightarrow> Unmodelled)"

definition load_all :: "store \<Rightarrow> RecapFrame list outcome" where
  "load_all st = load_lines st []"

definition prune_if_needed :: "store \<Rightarrow> unit outcome \<times> store" where
  \<comment> \<open>\<open>_prune_if_needed\<close>: the result and the file afterwards\<close>
  "prune_if_needed st =
     (case load_all st of
        Returns frames \<Rightarrow>
          if int (length frames) \<le> MAX_FRAMES then (Returns (), st)
          else (Returns (), map (\<lambda>f. Parsed (RecapFrame_to_dict f)) (py_drop (- MAX_FRAMES) frames))
      | Raises e \<Rightarrow> (Raises e, st)
      | Unmodelled \<Rightarrow> (Unmodelled, st))"

definition write_frame :: "RecapFrame \<Rightarrow> store \<Rightarrow> unit outcome \<times> store" where
  "write_frame frame st = prune_if_needed (st @ [Parsed (RecapFrame_to_dict frame)])"

section \<open>api.py: the extractors\<close>

definition any_in :: "string list \<Rightarrow> string \<Rightarrow> bool" where
  \<comment> \<open>\<open>any(k in text for k in ks)\<close>\<close>
  "any_in ks text = list_ex (\<lambda>k. py_in k text) ks"

definition classify_tags :: "string \<Rightarrow> string \<Rightarrow> string list" where
  "classify_tags user_msg assistant_msg =
     (let text = py_lower (user_msg @ '' '' @ assistant_msg);
          tags = [];
          tags = (if any_in [''code'', ''api'', ''schema'', ''algorithm'', ''implementation'',
                             ''stack'', ''bug''] text
                  then tags @ [''tech''] else tags);
          tags = (if any_in [''plan'', ''roadmap'', ''milestone'', ''schedule'', ''timeline'',
                             ''next steps''] text
                  then tags @ [''plan''] else tags);
          tags = (if any_in [''think'', ''reflect'', ''meta'', ''why'', ''philosophy'',
                             ''epistemology''] text
                  then tags @ [''meta''] else tags)
      in if tags = [] then tags @ [''general''] else tags)"

definition distill_intent :: "string \<Rightarrow> string" where
  "distill_intent user_msg = compress_text user_msg 400"

definition distill_output :: "string \<Rightarrow> string" where
  "distill_output assistant_msg = compress_text assistant_msg 400"

definition extract_semantic :: "string \<Rightarrow> string \<Rightarrow> SemanticMemory" where
  "extract_semantic user_msg assistant_msg =
     (let notes = compress_text assistant_msg 400;
          topics = extract_keywords [user_msg, assistant_msg] 8
      in \<lparr>concepts = topics, notes = notes\<rparr>)"

definition is_linebreak :: "char \<Rightarrow> bool" where
  \<comment> \<open>the one-character line boundaries of \<open>str.splitlines\<close> below 256\<close>
  "is_linebreak c = (c \<in> set [CHR 0x0A, CHR 0x0B, CHR 0x0C, CHR 0x0D,
                                CHR 0x1C, CHR 0x1D, CHR 0x1E, CHR 0x85])"

fun splitlines :: "string \<Rightarrow> string \<Rightarrow> string list" where
  \<comment> \<open>\<open>s.splitlines()\<close>: a carriage return followed by a line feed is one boundary, and
      no empty line follows a final boundary; the first argument is the line being read\<close>
  "splitlines cur [] = (if cur = [] then [] else [cur])"
| "splitlines cur (c # cs) =
     (if is_linebreak c then
        (case cs of
           d # ds \<Rightarrow>
             (if c = CHR 0x0D \<and> d = CHR 0x0A then cur # splitlines [] ds
              else cur # splitlines [] cs)
         | [] \<Rightarrow> [cur])
      else splitlines (cur @ [c]) cs)"

definition strip_chars :: "char set \<Rightarrow> string \<Rightarrow> string" where
  \<comment> \<open>\<open>s.strip(chars)\<close>\<close>
  "strip_chars chars s =
     rev (dropWhile (\<lambda>c. c \<in> chars) (rev (dropWhile (\<lambda>c. c \<in> chars) s)))"

definition extract_procedural :: "string \<Rightarrow> string \<Rightarrow> ProceduralMemory" where
  \<comment> \<open>of the characters of \<open>"-*\<bullet> \t"\<close> the bullet is above 255 and cannot occur\<close>
  "extract_procedural user_msg assistant_msg =
     (let combined = user_msg @ [CHR 0x0A] @ assistant_msg;
          lines = map (strip_chars {CHR ''-'', CHR ''*'', CHR '' '', CHR 0x09})
                    (splitlines [] combined);
          workflows = filter (\<lambda>ln. list_ex (\<lambda>p. prefix p (py_lower ln))
                         [''step '', ''1.'', ''2.'', ''3.'', ''first'', ''second'', ''third''])
                        lines
      in \<lparr>workflows = workflows, checklists = []\<rparr>)"

fun after_first :: "string \<Rightarrow> string \<Rightarrow> string option" where
  \<comment> \<open>\<open>s.split(marker, 1)[1]\<close> for a marker that is not empty: what follows the first
      occurrence of the marker; \<open>None\<close> when there is none, the split then has one
      element and index 1 raises \<open>IndexError\<close>\<close>
  "after_first marker [] = None"
| "after_first marker (c # cs) =
     (if prefix marker (c # cs) then Some (drop (length marker) (c # cs))
      else after_first marker cs)"

fun project_name_loop :: "string list \<Rightarrow> string outcome" where
  \<comment> \<open>the loop \<open>for line in text.splitlines()\<close> with its two \<open>break\<close>s; the result is
      \<open>project_name\<close> after the loop\<close>
  "project_name_loop [] = Returns []"
| "project_name_loop (line # lines) =
     (let lower = py_lower line;
          second = (if py_in ''project name:'' lower then
                      (case after_first ''project name:'' line of
                         None \<Rightarrow> Raises IndexError
                       | Some a \<Rightarrow>
                           let after = py_strip a in
                           if after \<noteq> [] then Returns after else project_name_loop lines)
                    else project_name_loop lines)
      in if py_in ''project:'' lower then
           (case after_first ''project:'' line of
              None \<Rightarrow> Raises IndexError
            | Some a \<Rightarrow>
                let after = py_strip a in
                if after \<noteq> [] then Returns after else second)
         else second)"

definition extract_project_state :: "string \<Rightarrow> string \<Rightarrow> ProjectState outcome" where
  "extract_project_state user_msg assistant_msg =
     (let text = user_msg @ [CHR 0x0A] @ assistant_msg in
      obind (project_name_loop (splitlines [] text)) (\<lambda>project_name.
        let summary = distill_intent user_msg;
            active_workstream =
              (if py_in ''currently'' (py_lower user_msg) \<or> py_in ''right now'' (py_lower user_msg)
               then summary else [])
        in Returns \<lparr>project_name = project_name, summary = summary,
                    ProjectState.active_workstream = active_workstream,
                    pending_tasks = [], ProjectState.constraints = []\<rparr>))"

definition extract_preferences :: "string \<Rightarrow> string \<Rightarrow> Preferences" where
  "extract_preferences user_msg assistant_msg =
     (let text = py_lower (user_msg @ '' '' @ assistant_msg);
          style = [];
          tone = [];
          constraints = [];
          other = [];
          style = (if py_in ''concise'' text \<or> py_in ''short answer'' text
                   then ''concise'' else style);
          style = (if py_in ''detailed'' text \<or> py_in ''step-by-step'' text
                   then ''detailed'' else style);
          tone = (if py_in ''casual'' text then ''casual'' else tone);
          tone = (if py_in ''formal'' text then ''formal'' else tone);
          constraints = (if py_in ''no code'' text
                         then constraints @ [''avoid code unless requested''] else constraints);
          constraints = (if py_in ''no examples'' text
                         then constraints @ [''avoid examples unless requested'']
                         else constraints)
      in \<lparr>style = style, tone = tone, Preferences.constraints = constraints, other = other\<rparr>)"

definition make_frame :: "string \<Rightarrow> string \<Rightarrow> string \<Rightarrow> RecapFrame outcome" where
  \<comment> \<open>lines 155 to 184 of api.py: the frame \<open>save_context\<close> hands to \<open>write_frame\<close>. The
      first argument is the text the clock gives for \<open>timestamp\<close>\<close>
  "make_frame now raw_user_msg raw_assistant_msg =
     (let distilled_intent = distill_intent raw_user_msg;
          distilled_output = distill_output raw_assistant_msg;
          tags = classify_tags raw_user_msg raw_assistant_msg;
          semantic = extract_semantic raw_user_msg raw_assistant_msg;
          procedural = extract_procedural raw_user_msg raw_assistant_msg
      in obind (extract_project_state raw_user_msg raw_assistant_msg) (\<lambda>project_state.
           let preferences = extract_preferences raw_user_msg raw_assistant_msg;
               key_topics = extract_keywords
                   [raw_user_msg, raw_assistant_msg, notes semantic, summary project_state] 12;
               frame = \<lparr>timestamp = now, key_topics = key_topics,
                        distilled_user_intent = distilled_intent,
                        distilled_system_output = distilled_output, tags = tags,
                        semantic = semantic, procedural = procedural,
                        project_state = project_state, preferences = preferences,
                        raw_user_message = raw_user_msg,
                        raw_assistant_message = raw_assistant_msg\<rparr>
           in Returns (compress_frame frame 600)))"

definition save_context :: "string \<Rightarrow> string \<Rightarrow> string \<Rightarrow> store \<Rightarrow> RecapFrame outcome \<times> store" where
  \<comment> \<open>the result and the file afterwards\<close>
  "save_context now raw_user_msg raw_assistant_msg st =
     (case make_frame now raw_user_msg raw_assistant_msg of
        Returns compressed \<Rightarrow>
          (case write_frame compressed st of
             (Returns u, st') \<Rightarrow> (Returns compressed, st')
           | (Raises e, st') \<Rightarrow> (Raises e, st')
           | (Unmodelled, st') \<Rightarrow> (Unmodelled, st'))
      | Raises e \<Rightarrow> (Raises e, st)
      | Unmodelled \<Rightarrow> (Unmodelled, st))"

section \<open>retrieval.py\<close>

definition is_word_char :: "char \<Rightarrow> bool" where
  \<comment> \<open>the class \<open>\w\<close> of a \<open>str\<close> pattern on the code points below 256: letters, digits
      and other numeric characters, and the underscore\<close>
  "is_word_char c =
     ((CHR ''0'' \<le> c \<and> c \<le> CHR ''9'') \<or> (CHR ''A'' \<le> c \<and> c \<le> CHR ''Z'') \<or>
      (CHR ''a'' \<le> c \<and> c \<le> CHR ''z'') \<or> c = CHR ''_'' \<or>
      c \<in> set [CHR 0xAA, CHR 0xB2, CHR 0xB3, CHR 0xB5, CHR 0xB9, CHR 0xBA,
                 CHR 0xBC, CHR 0xBD, CHR 0xBE] \<or>
      (CHR 0xC0 \<le> c \<and> c \<le> CHR 0xD6) \<or> (CHR 0xD8 \<le> c \<and> c \<le> CHR 0xF6) \<or>
      CHR 0xF8 \<le> c)"

fun is_word_opt :: "char option \<Rightarrow> bool" where
  \<comment> \<open>a position outside the text counts as not a word character\<close>
  "is_word_opt None = False"
| "is_word_opt (Some c) = is_word_char c"

definition word_at :: "char option \<Rightarrow> string \<Rightarrow> string \<Rightarrow> bool" where
  \<comment> \<open>the pattern \<open>\b tok \b\<close> matches at the head of \<open>s\<close>, \<open>prev\<close> being the character before
      it: \<open>tok\<close> is there, and on each side of it exactly one neighbour is a word
      character. For a token that is not empty\<close>
  "word_at prev tok s =
     (tok \<noteq> [] \<and> prefix tok s \<and>
      is_word_opt prev \<noteq> is_word_char (hd tok) \<and>
      is_word_char (last tok) \<noteq>
        is_word_opt (case drop (length tok) s of [] \<Rightarrow> None | c # cs \<Rightarrow> Some c))"

fun re_search_word :: "char option \<Rightarrow> string \<Rightarrow> string \<Rightarrow> bool" where
  \<comment> \<open>\<open>re.search(r"\b" + re.escape(tok) + r"\b", text)\<close> finds a match; \<open>re.escape\<close>
      makes the token match itself\<close>
  "re_search_word prev tok [] = False"
| "re_search_word prev tok (c # cs) =
     (word_at prev tok (c # cs) \<or> re_search_word (Some c) tok cs)"

text \<open>
  The score is a Python float, an IEEE double. A double is modelled by the rational it
  stands for, and each operation gives the exact result rounded to the nearest double,
  ties to the even one (\<open>py_float\<close>): so does the division of two \<open>int\<close>s, the
  conversion of an \<open>int\<close>, and the sum and the product of two floats. The range of the
  exponent is not modelled: no overflow and no subnormal numbers, which here would take
  counts above \<open>2 ^ 1000\<close>.
\<close>

function bit_length :: "int \<Rightarrow> int" where
  \<comment> \<open>the number of binary digits of a positive integer\<close>
  "bit_length a = (if a \<le> 0 then 0 else 1 + bit_length (a div 2))"
  by pat_completeness auto
termination
  by (relation "measure nat") auto

definition pow2 :: "int \<Rightarrow> rat" where
  \<comment> \<open>\<open>2\<close> to an integer power\<close>
  "pow2 k = (if 0 \<le> k then 2 ^ nat k else 1 / 2 ^ nat (- k))"

definition binade :: "rat \<Rightarrow> int" where
  \<comment> \<open>for a positive \<open>q\<close>, the exponent \<open>e\<close> with \<open>2 ^ e \<le> q < 2 ^ (e + 1)\<close>\<close>
  "binade q =
     (let k = bit_length (fst (quotient_of q)) - bit_length (snd (quotient_of q))
      in if pow2 k \<le> q then k else k - 1)"

definition round_half_even :: "rat \<Rightarrow> int" where
  \<comment> \<open>the nearest integer, the even one of two that are equally near\<close>
  "round_half_even m =
     (let f = \<lfloor>m\<rfloor>; d = m - of_int f in
      if d < 1 / 2 then f else if 1 / 2 < d then f + 1 else if even f then f else f + 1)"

definition py_float :: "rat \<Rightarrow> rat" where
  \<comment> \<open>the nearest double: 53 significant binary digits\<close>
  "py_float q =
     (if q = 0 then 0
      else let u = pow2 (binade \<bar>q\<bar> - 52) in of_int (round_half_even (q / u)) * u)"

definition recency_weight :: "nat \<Rightarrow> nat \<Rightarrow> rat" where
  \<comment> \<open>\<open>1.0 + (index / max(total - 1, 1))\<close>\<close>
  "recency_weight index total_frames =
     py_float (1 + py_float (of_nat index / of_int (max (int total_frames - 1) 1)))"

definition score_frame :: "string list \<Rightarrow> RecapFrame \<Rightarrow> nat \<Rightarrow> nat \<Rightarrow> rat" where
  "score_frame query_tokens frame index total_frames =
     (if query_tokens = [] then recency_weight index total_frames
      else
        let text = py_lower (py_join '' ''
                     [py_join '' '' (key_topics frame), distilled_user_intent frame,
                      distilled_system_output frame, summary (project_state frame),
                      raw_user_message frame]);
            match_count =
              length (filter (\<lambda>tok. tok \<noteq> [] \<and> re_search_word None tok text) query_tokens)
        in if match_count = 0 then 0
           else py_float (py_float (of_nat match_count) * recency_weight index total_frames))"

definition retrieve_relevant_frames :: "string \<Rightarrow> int \<Rightarrow> store \<Rightarrow> RecapFrame list outcome" where
  "retrieve_relevant_frames query max_results st =
     obind (load_all st) (\<lambda>frames.
       if frames = [] then Returns []
       else
         let query_tokens = (if query \<noteq> [] then tokenize query else []);
             total_frames = length frames;
             scored = filter (\<lambda>sf. \<not> (fst sf \<le> 0 \<and> query_tokens \<noteq> []))
                        (map (\<lambda>p. (score_frame query_tokens (snd p) (fst p) total_frames, snd p))
                           (enumerate 0 frames));
             scored = sort_key (\<lambda>sf. (- fst sf, timestamp (snd sf))) scored
         in Returns (map snd (filter (\<lambda>sf. 0 < fst sf \<or> query_tokens = [])
                                 (py_take max_results scored))))"

record agg =
  agg_project_summary :: string
  agg_active_workstream :: string
  agg_pending_tasks :: "string list"
  agg_constraints :: "string list"
  agg_style :: string
  agg_tone :: string
  agg_pref_constraints :: "string list"
  agg_other_prefs :: "(string \<times> string) list"

definition agg_init :: agg where
  \<comment> \<open>the local variables before the loop \<open>for frame in frames\<close>\<close>
  "agg_init =
     \<lparr>agg_project_summary = [], agg_active_workstream = [], agg_pending_tasks = [],
      agg_constraints = [], agg_style = [], agg_tone = [], agg_pref_constraints = [],
      agg_other_prefs = []\<rparr>"

definition agg_step :: "agg \<Rightarrow> RecapFrame \<Rightarrow> agg" where
  \<comment> \<open>one round of the loop; \<open>other_prefs[k] = v\<close> replaces the value of a key that is
      there and adds a new key at the end\<close>
  "agg_step a frame =
     (let ps = project_state frame;
          a = (if summary ps \<noteq> [] then a\<lparr>agg_project_summary := summary ps\<rparr> else a);
          a = (if ProjectState.active_workstream ps \<noteq> []
               then a\<lparr>agg_active_workstream := ProjectState.active_workstream ps\<rparr> else a);
          a = a\<lparr>agg_pending_tasks := agg_pending_tasks a @ pending_tasks ps\<rparr>;
          a = a\<lparr>agg_constraints := agg_constraints a @ ProjectState.constraints ps\<rparr>;
          a = (if style (preferences frame) \<noteq> []
               then a\<lparr>agg_style := style (preferences frame)\<rparr> else a);
          a = (if tone (preferences frame) \<noteq> []
               then a\<lparr>agg_tone := tone (preferences frame)\<rparr> else a);
          a = a\<lparr>agg_pref_constraints :=
                   agg_pref_constraints a @ Preferences.constraints (preferences frame)\<rparr>;
          a = a\<lparr>agg_other_prefs :=
                   foldl (\<lambda>m kv. AList.update (fst kv) (snd kv) m) (agg_other_prefs a)
                     (other (preferences frame))\<rparr>
      in a)"

definition aggregate :: "RecapFrame list \<Rightarrow> ContextBundle" where
  \<comment> \<open>lines 95 to 176 of retrieval.py, for a list \<open>frames\<close> that is not empty\<close>
  "aggregate frames =
     (let primary = last frames;
          a = foldl agg_step agg_init frames;
          project_summary =
            (if agg_project_summary a = [] then
               (if distilled_user_intent primary \<noteq> [] then distilled_user_intent primary
                else py_join '' | '' (key_topics primary))
             else agg_project_summary a);
          active_workstream =
            (if agg_active_workstream a = []
             then ProjectState.active_workstream (project_state primary)
             else agg_active_workstream a);
          pending_tasks = dedup_list {} (agg_pending_tasks a);
          constraints = dedup_list {} (agg_constraints a);
          pref_constraints = dedup_list {} (agg_pref_constraints a);
          recommended_next_steps =
            (if pending_tasks \<noteq> [] then py_take 5 pending_tasks
             else
               let base = (if active_workstream \<noteq> [] then active_workstream
                           else project_summary)
               in if base \<noteq> [] then [''Continue: '' @ base] else []);
          user_prefs = \<lparr>style = agg_style a, tone = agg_tone a,
                        Preferences.constraints = pref_constraints,
                        other = agg_other_prefs a\<rparr>
      in \<lparr>project_summary = project_summary,
          ContextBundle.active_workstream = active_workstream,
          user_prefs = user_prefs, known_constraints = constraints,
          recommended_next_steps = recommended_next_steps,
          supporting_frames = frames\<rparr>)"

definition empty_bundle :: ContextBundle where
  "empty_bundle =
     \<lparr>project_summary = [], ContextBundle.active_workstream = [],
      user_prefs = Preferences_default, known_constraints = [],
      recommended_next_steps = [], supporting_frames = []\<rparr>"

definition reconstruct_state :: "string \<Rightarrow> int \<Rightarrow> store \<Rightarrow> ContextBundle outcome" where
  "reconstruct_state query max_frames st =
     obind (retrieve_relevant_frames query max_frames st) (\<lambda>frames.
     obind (if frames = []
            then obind (load_all st) (\<lambda>all_frames. Returns (py_drop (- max_frames) all_frames))
            else Returns frames) (\<lambda>frames.
       if frames = [] then Returns empty_bundle else Returns (aggregate frames)))"

definition load_context :: "string \<Rightarrow> store \<Rightarrow> ContextBundle outcome" where
  "load_context query st = reconstruct_state query 12 st"

definition summarize :: "store \<Rightarrow> ContextBundle outcome" where
  "summarize st = reconstruct_state [] 20 st"

section \<open>Definitions used to state the properties\<close>

fun parsed_values :: "store \<Rightarrow> json list" where
  \<comment> \<open>the values of the lines that parse as JSON, in file order\<close>
  "parsed_values [] = []"
| "parsed_values (Parsed j # ls) = j # parsed_values ls"
| "parsed_values (l # ls) = parsed_values ls"

fun reads_ok :: "line \<Rightarrow> bool" where
  \<comment> \<open>the line is read and \<open>json.loads\<close> returns on it or raises \<open>JSONDecodeError\<close>\<close>
  "reads_ok Undecodable = False"
| "reads_ok (Fails e) = False"
| "reads_ok l = True"

fun skipped :: "line \<Rightarrow> bool" where
  \<comment> \<open>the line is blank, or \<open>json.loads\<close> raises \<open>JSONDecodeError\<close> on it\<close>
  "skipped Blank = True"
| "skipped Garbage = True"
| "skipped l = False"

definition write_all :: "RecapFrame list \<Rightarrow> store \<Rightarrow> store" where
  \<comment> \<open>the file after \<open>write_frame\<close> has been called on each frame in turn\<close>
  "write_all frames st = foldl (\<lambda>st f. snd (write_frame f st)) st frames"

definition frame_at :: "nat \<Rightarrow> RecapFrame" where
  \<comment> \<open>a sample frame, told apart by its time stamp\<close>
  "frame_at n =
     \<lparr>timestamp = replicate n (CHR ''x''), key_topics = [], distilled_user_intent = [],
      distilled_system_output = [], tags = [], semantic = SemanticMemory_default,
      procedural = ProceduralMemory_default, project_state = ProjectState_default,
      preferences = Preferences_default, raw_user_message = [],
      raw_assistant_message = []\<rparr>"

fun returned :: "'a outcome \<Rightarrow> 'a option" where
  \<comment> \<open>the value of a call that returns\<close>
  "returned (Returns x) = Some x"
| "returned (Raises e) = None"
| "returned Unmodelled = None"

definition marker_rest :: "string \<Rightarrow> string \<Rightarrow> string option" where
  \<comment> \<open>what follows the first occurrence of the marker in the line, stripped, when the
      marker occurs and something other than white space follows it\<close>
  "marker_rest marker line =
     (case after_first marker line of
        None \<Rightarrow> None
      | Some a \<Rightarrow> (if py_strip a \<noteq> [] then Some (py_strip a) else None))"

definition line_project_name :: "string \<Rightarrow> string option" where
  \<comment> \<open>the name one line gives: \<open>project:\<close> is tried first, then \<open>project name:\<close>\<close>
  "line_project_name line =
     (case marker_rest ''project:'' line of
        Some n \<Rightarrow> Some n
      | None \<Rightarrow> marker_rest ''project name:'' line)"

fun first_project_name :: "string list \<Rightarrow> string" where
  \<comment> \<open>the name of the first line that gives one, empty when no line does\<close>
  "first_project_name [] = []"
| "first_project_name (line # lines) =
     (case line_project_name line of Some n \<Rightarrow> n | None \<Rightarrow> first_project_name lines)"

definition lower_case_markers :: "string \<Rightarrow> bool" where
  \<comment> \<open>a marker the lowercased line contains is in the line as it is written\<close>
  "lower_case_markers line =
     ((py_in ''project:'' (py_lower line) \<longrightarrow> py_in ''project:'' line) \<and>
      (py_in ''project name:'' (py_lower line) \<longrightarrow> py_in ''project name:'' line))"

definition claimed_project_name :: "string list \<Rightarrow> string" where
  \<comment> \<open>the reading of the specification: \<open>project:\<close> anywhere in the text comes before
      \<open>project name:\<close> anywhere in the text\<close>
  "claimed_project_name lines =
     (case List.map_filter (marker_rest ''project:'') lines of
        n # ns \<Rightarrow> n
      | [] \<Rightarrow> (case List.map_filter (marker_rest ''project name:'') lines of
                 n # ns \<Rightarrow> n
               | [] \<Rightarrow> []))"

definition orion_first :: "RecapFrame outcome \<times> store" where
  \<comment> \<open>the first interaction of the scenario, saved to a new store\<close>
  "orion_first = save_context ''2024-01-01T00:00:00Z'' ''hello'' ''hi'' []"

definition orion_second :: "RecapFrame outcome \<times> store" where
  \<comment> \<open>the second interaction, saved one second later\<close>
  "orion_second =
     save_context ''2024-01-01T00:00:01Z''
       ''project: Orion. I am currently migrating the database'' ''ok'' (snd orion_first)"

definition style_store :: store where
  \<comment> \<open>a store of two interactions: the older asks for concise answers, the newer for
      detailed ones\<close>
  "style_store =
     snd (save_context ''2024-01-01T00:00:01Z'' ''Please be detailed'' ''ok''
       (snd (save_context ''2024-01-01T00:00:00Z'' ''Please be concise'' ''ok'' [])))"

definition kept_tokens :: "string list \<Rightarrow> string list" where
  \<comment> \<open>the tokens of all texts that are not stopwords\<close>
  "kept_tokens texts = filter (\<lambda>t. t \<notin> STOPWORDS) (concat (map tokenize texts))"

definition frequency :: "string list \<Rightarrow> string \<Rightarrow> int" where
  \<comment> \<open>how often a token occurs in all texts together\<close>
  "frequency texts tok = int (count_list (concat (map tokenize texts)) tok)"

text \<open>
  The vocabulary of the proofs about \<open>compress_text\<close>: the shape of a cleaned text, the
  sentence loop as a scan over the characters, and the shape of its sentences.
\<close>

abbreviation sp :: char where "sp \<equiv> CHR '' ''"

fun ws :: "string \<Rightarrow> bool" where
  \<comment> \<open>the only white space is the space character, and no two spaces are adjacent\<close>
  "ws [] = True"
| "ws [c] = (is_space c \<longrightarrow> c = sp)"
| "ws (c # d # cs) = ((is_space c \<longrightarrow> c = sp) \<and> \<not> (c = sp \<and> d = sp) \<and> ws (d # cs))"

definition normalized :: "string \<Rightarrow> bool" where
  \<comment> \<open>words separated by single spaces, no white space at either end\<close>
  "normalized s = (ws s \<and> (s \<noteq> [] \<longrightarrow> \<not> is_space (hd s) \<and> \<not> is_space (last s)))"

fun scan :: "string \<Rightarrow> string \<Rightarrow> string list" where
  \<comment> \<open>the sentences read off the characters one by one; the first argument is the
      sentence being read\<close>
  "scan cur [] = (if cur = [] then [] else [py_strip cur])"
| "scan cur (x # xs) =
     (if is_delim x then py_strip (cur @ [x]) # scan [] xs else scan (cur @ [x]) xs)"

definition finalize :: "string list \<times> string \<Rightarrow> string list" where
  \<comment> \<open>lines 78 and 79 of compression.py, on the state the loop ends in\<close>
  "finalize st = (case st of (sentences, current) \<Rightarrow>
      (if current \<noteq> [] then sentences @ [py_strip current] else sentences))"

definition closed :: "string \<Rightarrow> bool" where
  \<comment> \<open>a sentence that ends in its only delimiter\<close>
  "closed s = (normalized s \<and> s \<noteq> [] \<and> is_delim (last s) \<and> (\<forall>x\<in>set (butlast s). \<not> is_delim x))"

definition opened :: "string \<Rightarrow> bool" where
  \<comment> \<open>a sentence without a delimiter\<close>
  "opened s = (normalized s \<and> s \<noteq> [] \<and> (\<forall>x\<in>set s. \<not> is_delim x))"

fun sentences_ok :: "string list \<Rightarrow> bool" where
  \<comment> \<open>every sentence but the last ends in its delimiter; the last may have none\<close>
  "sentences_ok [] = True"
| "sentences_ok [s] = (closed s \<or> opened s)"
| "sentences_ok (s # t # ts) = (closed s \<and> sentences_ok (t # ts))"

definition stable :: "string \<Rightarrow> bool" where
  \<comment> \<open>the join of distinct sentences\<close>
  "stable s = (\<exists>L. sentences_ok L \<and> distinct L \<and> s = py_join '' '' L)"

definition unique_sentences :: "string \<Rightarrow> string list" where
  \<comment> \<open>\<open>unique_sentences\<close> of \<open>compress_text\<close>, for the text \<open>t\<close>\<close>
  "unique_sentences t = dedup_seen {} (split_sentences (py_join '' '' (py_split (py_strip t))))"


section \<open>Serialization round trip\<close>

lemma obind_Returns [simp]: "obind (Returns x) f = f x"
  by (simp add: obind_def)

lemma obind_Raises [simp]: "obind (Raises e) f = Raises e"
  by (simp add: obind_def)

lemma obind_Unmodelled [simp]: "obind Unmodelled f = Unmodelled"
  by (simp add: obind_def)

lemma str_of_comp_JStr [simp]: "str_of \<circ> JStr = (\<lambda>x. x)"
  by (rule ext) simp

lemma other_pair_comp [simp]:
  "(\<lambda>kv. (fst kv, str_of (snd kv))) \<circ> (\<lambda>kv. (fst kv, JStr (snd kv))) = (\<lambda>x. x)"
  by (rule ext) simp

lemma list_all_is_JStr [simp]: "list_all is_JStr (map JStr xs)"
  by (induction xs) auto

lemma list_all_other_JStr [simp]:
  "list_all (\<lambda>kv. is_JStr (snd kv)) (map (\<lambda>kv. (fst kv, JStr (snd kv))) xs)"
  by (induction xs) auto

lemma SemanticMemory_round_trip:
  "SemanticMemory_from_dict (Some (SemanticMemory_to_dict m)) = Returns m"
  by (simp add: SemanticMemory_from_dict_def SemanticMemory_to_dict_def)

lemma ProceduralMemory_round_trip:
  "ProceduralMemory_from_dict (Some (ProceduralMemory_to_dict m)) = Returns m"
  by (simp add: ProceduralMemory_from_dict_def ProceduralMemory_to_dict_def)

lemma ProjectState_round_trip:
  "ProjectState_from_dict (Some (ProjectState_to_dict m)) = Returns m"
  by (simp add: ProjectState_from_dict_def ProjectState_to_dict_def)

lemma Preferences_round_trip:
  "Preferences_from_dict (Some (Preferences_to_dict m)) = Returns m"
  by (simp add: Preferences_from_dict_def Preferences_to_dict_def)

lemma frame_round_trip: "RecapFrame_from_dict (RecapFrame_to_dict f) = Returns f"
  by (simp add: RecapFrame_from_dict_def RecapFrame_to_dict_def SemanticMemory_round_trip
      ProceduralMemory_round_trip ProjectState_round_trip Preferences_round_trip)

text \<open>
  Claim C6. Serialization round-trips: for every frame \<open>f\<close> whose fields hold strings,
  lists of strings and a string-to-string mapping, as the record types say,
  \<open>RecapFrame.from_dict(f.to_dict())\<close> returns a frame equal to \<open>f\<close> in every field.
\<close>

theorem from_dict_to_dict: "RecapFrame_from_dict (RecapFrame_to_dict f) = Returns f"
  by (rule frame_round_trip)

section \<open>Reading the store\<close>

lemma load_lines_iff:
  "load_lines st acc = Returns fs \<longleftrightarrow>
   list_all reads_ok st \<and>
   (\<exists>gs. fs = acc @ gs \<and> map RecapFrame_from_dict (parsed_values st) = map Returns gs)"
proof (induction st acc arbitrary: fs rule: load_lines.induct)
  case (1 frames)
  then show ?case by auto
next
  case (2 ls frames)
  then show ?case by simp
next
  case (3 ls frames)
  then show ?case by simp
next
  case (4 ls frames)
  then show ?case by simp
next
  case (5 e ls frames)
  then show ?case by simp
next
  case (6 j ls frames)
  show ?case
  proof (cases "RecapFrame_from_dict j")
    case (Returns f)
    have "load_lines (Parsed j # ls) frames = Returns fs \<longleftrightarrow>
          list_all reads_ok ls \<and>
          (\<exists>gs. fs = (frames @ [f]) @ gs \<and>
             map RecapFrame_from_dict (parsed_values ls) = map Returns gs)"
      using 6 Returns by simp
    also have "(\<exists>gs. fs = (frames @ [f]) @ gs \<and>
             map RecapFrame_from_dict (parsed_values ls) = map Returns gs) \<longleftrightarrow>
       (\<exists>gs. fs = frames @ gs \<and>
         map RecapFrame_from_dict (parsed_values (Parsed j # ls)) = map Returns gs)"
      (is "?L \<longleftrightarrow> ?R")
    proof
      assume ?L
      then obtain gs where "fs = (frames @ [f]) @ gs"
        "map RecapFrame_from_dict (parsed_values ls) = map Returns gs" by blast
      then have "fs = frames @ (f # gs) \<and>
         map RecapFrame_from_dict (parsed_values (Parsed j # ls)) = map Returns (f # gs)"
        using Returns by simp
      then show ?R by blast
    next
      assume ?R
      then obtain gs where g: "fs = frames @ gs"
        "map RecapFrame_from_dict (parsed_values (Parsed j # ls)) = map Returns gs" by blast
      then obtain g gs' where gs: "gs = g # gs'" by (cases gs) auto
      with g Returns have "g = f" "map RecapFrame_from_dict (parsed_values ls) = map Returns gs'"
        by auto
      with g gs show ?L by auto
    qed
    finally show ?thesis by simp
  next
    case (Raises e)
    then show ?thesis by (auto simp: map_eq_Cons_conv)
  next
    case Unmodelled
    then show ?thesis by (auto simp: map_eq_Cons_conv)
  qed
qed

lemma load_all_iff:
  "load_all st = Returns fs \<longleftrightarrow>
   list_all reads_ok st \<and> map RecapFrame_from_dict (parsed_values st) = map Returns fs"
  by (simp add: load_all_def load_lines_iff)

lemma parsed_values_append: "parsed_values (xs @ ys) = parsed_values xs @ parsed_values ys"
  by (induction xs rule: parsed_values.induct) auto

lemma parsed_values_written:
  "parsed_values (map (\<lambda>f. Parsed (RecapFrame_to_dict f)) fs) = map RecapFrame_to_dict fs"
  by (induction fs) auto

lemma reads_ok_written: "list_all reads_ok (map (\<lambda>f. Parsed (RecapFrame_to_dict f)) fs)"
  by (induction fs) auto

lemma load_all_written:
  "load_all (map (\<lambda>f. Parsed (RecapFrame_to_dict f)) fs) = Returns fs"
  by (simp add: load_all_iff parsed_values_written reads_ok_written frame_round_trip comp_def)

lemma load_all_append_frame:
  "load_all st = Returns fs \<Longrightarrow>
   load_all (st @ [Parsed (RecapFrame_to_dict f)]) = Returns (fs @ [f])"
  by (simp add: load_all_iff parsed_values_append frame_round_trip)

lemma load_all_Nil: "load_all [] = Returns []"
  by (simp add: load_all_def)

lemma load_lines_skip:
  "load_lines (filter (\<lambda>l. \<not> skipped l) st) acc = load_lines st acc"
proof (induction st acc rule: load_lines.induct)
  case (6 j ls frames)
  then show ?case by (cases "RecapFrame_from_dict j") simp_all
qed simp_all

text \<open>
  Claim C8, as the code has it. A blank line and a line on which \<open>json.loads\<close> raises
  \<open>JSONDecodeError\<close> are skipped without aborting the read: with or without them
  \<open>load_all\<close> does the same. \<open>load_all\<close> returns exactly when every line is read,
  \<open>json.loads\<close> returns on it or raises \<open>JSONDecodeError\<close>, and \<open>RecapFrame.from_dict\<close>
  returns on every parsed value; it then returns, in file order, the frames of the
  lines that parse. Any other exception (of the UTF-8 decoder, of \<open>json.loads\<close>, of
  \<open>from_dict\<close>) leaves \<open>load_all\<close>.
\<close>

theorem load_all_parsed_lines:
  "(load_all st = Returns fs \<longleftrightarrow>
      list_all reads_ok st \<and> map RecapFrame_from_dict (parsed_values st) = map Returns fs) \<and>
   load_all (filter (\<lambda>l. \<not> skipped l) st) = load_all st"
  by (simp add: load_all_iff) (simp add: load_all_def load_lines_skip)

theorem load_all_parsed_lines_witness:
  "load_all [Garbage, Parsed (RecapFrame_to_dict (frame_at 1)), Blank, Parsed (JObj [])]
     = Returns [frame_at 1, frame_at 0] \<and>
   load_all [Parsed (RecapFrame_to_dict (frame_at 1)), Parsed (JObj [])]
     = Returns [frame_at 1, frame_at 0]"
  using load_all_parsed_lines
    [of "[Garbage, Parsed (RecapFrame_to_dict (frame_at 1)), Blank, Parsed (JObj [])]"
        "[frame_at 1, frame_at 0]"]
  by (simp add: frame_round_trip)
     (simp add: RecapFrame_from_dict_def frame_at_def SemanticMemory_from_dict_def
        ProceduralMemory_from_dict_def ProjectState_from_dict_def Preferences_from_dict_def)

text \<open>
  Claim C8 as stated fails: the line \<open>5\<close> parses as JSON, \<open>json.loads\<close> returns the
  integer 5, and \<open>data.get\<close> raises \<open>AttributeError\<close>, which \<open>load_all\<close> does not catch.
\<close>

theorem load_all_raises_on_number_line:
  "load_all [Parsed (RecapFrame_to_dict (frame_at 1)), Parsed (JInt 5)] = Raises AttributeError"
  by (simp add: load_all_def frame_round_trip) (simp add: RecapFrame_from_dict_def)

section \<open>Retention\<close>

lemma py_drop_last: "py_drop (- 300) xs = drop (length xs - 300) xs"
  by (auto simp: py_drop_def slice_start_def nat_diff_distrib')

lemma prune_small:
  "load_all st = Returns fs \<Longrightarrow> length fs \<le> 300 \<Longrightarrow> prune_if_needed st = (Returns (), st)"
  by (simp add: prune_if_needed_def MAX_FRAMES_def)

lemma prune_large:
  "load_all st = Returns fs \<Longrightarrow> \<not> length fs \<le> 300 \<Longrightarrow>
   prune_if_needed st =
     (Returns (), map (\<lambda>f. Parsed (RecapFrame_to_dict f)) (drop (length fs - 300) fs))"
  by (simp add: prune_if_needed_def MAX_FRAMES_def py_drop_last)

lemma write_frame_loaded:
  assumes "load_all st = Returns fs"
  shows "fst (write_frame f st) = Returns () \<and>
         load_all (snd (write_frame f st)) = Returns (drop (Suc (length fs) - 300) (fs @ [f]))"
proof -
  have l: "load_all (st @ [Parsed (RecapFrame_to_dict f)]) = Returns (fs @ [f])"
    using assms by (rule load_all_append_frame)
  show ?thesis
  proof (cases "length (fs @ [f]) \<le> 300")
    case True
    from prune_small [OF l True] l True show ?thesis
      by (simp add: write_frame_def)
  next
    case False
    from prune_large [OF l False] show ?thesis
      by (simp only: write_frame_def fst_conv snd_conv load_all_written) simp
  qed
qed

lemma drop_last_step:
  "drop (Suc (length (drop (length xs - 300) xs)) - 300) (drop (length xs - 300) xs @ [g]) =
   drop (Suc (length xs) - 300) (xs @ [g])"
proof (cases "length xs \<le> 300")
  case True
  then show ?thesis by simp
next
  case False
  then have "length (drop (length xs - 300) xs) = 300" by simp
  moreover have "Suc (length xs - 300) = length xs - 299" using False by arith
  ultimately show ?thesis using False by simp
qed

lemma write_all_snoc: "write_all (gs @ [g]) st = snd (write_frame g (write_all gs st))"
  by (simp add: write_all_def)

lemma write_all_loaded:
  "load_all st = Returns fs \<Longrightarrow> length fs \<le> 300 \<Longrightarrow>
   load_all (write_all gs st) = Returns (drop (length (fs @ gs) - 300) (fs @ gs))"
proof (induction gs rule: rev_induct)
  case Nil
  then show ?case by (simp add: write_all_def)
next
  case (snoc g gs)
  let ?hs = "drop (length (fs @ gs) - 300) (fs @ gs)"
  have "load_all (write_all gs st) = Returns ?hs" using snoc by simp
  from write_frame_loaded [OF this, of g]
  have "load_all (write_all (gs @ [g]) st) = Returns (drop (Suc (length ?hs) - 300) (?hs @ [g]))"
    by (simp add: write_all_snoc)
  also have "drop (Suc (length ?hs) - 300) (?hs @ [g]) =
      drop (Suc (length (fs @ gs)) - 300) ((fs @ gs) @ [g])"
    by (rule drop_last_step)
  finally show ?case by simp
qed

text \<open>
  Claim C7. Retention: when the store can be read, \<open>write_frame\<close> returns and the store
  then holds the last 300 of the frames it held with the new one added at the end, so
  at most 300 frames; and writing 305 frames one after the other to an empty store
  leaves exactly 300 frames, the 300 written last, in the order they were written.
\<close>

theorem write_frame_retention:
  "(load_all st = Returns fs \<longrightarrow>
      fst (write_frame f st) = Returns () \<and>
      load_all (snd (write_frame f st)) = Returns (drop (Suc (length fs) - 300) (fs @ [f])) \<and>
      length (drop (Suc (length fs) - 300) (fs @ [f])) \<le> 300) \<and>
   (length gs = 305 \<longrightarrow>
      load_all (write_all gs []) = Returns (drop 5 gs) \<and> length (drop 5 gs) = 300)"
proof (intro conjI impI)
  assume l: "load_all st = Returns fs"
  from write_frame_loaded [OF l, of f]
  show "fst (write_frame f st) = Returns ()"
    and "load_all (snd (write_frame f st)) = Returns (drop (Suc (length fs) - 300) (fs @ [f]))"
    by simp_all
  show "length (drop (Suc (length fs) - 300) (fs @ [f])) \<le> 300" by simp
next
  assume g: "length gs = 305"
  from write_all_loaded [OF load_all_Nil, of gs] g
  show "load_all (write_all gs []) = Returns (drop 5 gs)" by simp
  from g show "length (drop 5 gs) = 300" by simp
qed

theorem write_frame_retention_witness:
  "load_all [] = Returns [] \<and>
   fst (write_frame (frame_at 0) []) = Returns () \<and>
   load_all (snd (write_frame (frame_at 0) [])) = Returns [frame_at 0] \<and>
   length (map frame_at [0..<305]) = 305 \<and>
   load_all (write_all (map frame_at [0..<305]) []) = Returns (map frame_at [5..<305])"
  using write_frame_retention [of "[]" "[]" "frame_at 0" "map frame_at [0..<305]"]
  by (simp add: load_all_Nil drop_map)

section \<open>The frame save_context builds\<close>

lemma compress_frame_other:
  "other (preferences (compress_frame frame n)) = other (preferences frame)"
  by (simp add: compress_frame_def Let_def)

lemma extract_preferences_other: "other (extract_preferences u a) = []"
  by (simp add: extract_preferences_def Let_def)

lemma make_frame_other:
  assumes "make_frame now u a = Returns f"
  shows "other (preferences f) = []"
proof (cases "extract_project_state u a")
  case (Returns ps)
  with assms show ?thesis
    by (auto simp: make_frame_def Let_def compress_frame_other extract_preferences_other)
next
  case (Raises e)
  with assms show ?thesis by (simp add: make_frame_def Let_def)
next
  case Unmodelled
  with assms show ?thesis by (simp add: make_frame_def Let_def)
qed

lemma load_all_last_written:
  assumes "load_all (st @ [Parsed (RecapFrame_to_dict f)]) = Returns frames"
  shows "frames \<noteq> [] \<and> last frames = f"
proof -
  from assms have "map RecapFrame_from_dict (parsed_values st) @ [Returns f] = map Returns frames"
    by (simp add: load_all_iff parsed_values_append frame_round_trip)
  then have "frames \<noteq> []" "last (map Returns frames) = Returns f"
    by (auto dest: arg_cong [where f = last])
  then show ?thesis by (simp add: last_map)
qed

lemma write_frame_last:
  assumes "fst (write_frame f st) = Returns u"
  shows "snd (write_frame f st) \<noteq> [] \<and>
         last (snd (write_frame f st)) = Parsed (RecapFrame_to_dict f)"
proof (cases "load_all (st @ [Parsed (RecapFrame_to_dict f)])")
  case (Returns frames)
  note l = load_all_last_written [OF Returns]
  show ?thesis
  proof (cases "length frames \<le> 300")
    case True
    with Returns show ?thesis by (simp add: write_frame_def prune_small)
  next
    case False
    then have "drop (length frames - 300) frames \<noteq> []" by simp
    moreover from False have "last (drop (length frames - 300) frames) = last frames"
      by simp
    ultimately show ?thesis using l Returns False
      by (simp add: write_frame_def prune_large last_map)
  qed
next
  case (Raises e)
  with assms show ?thesis by (simp add: write_frame_def prune_if_needed_def)
next
  case Unmodelled
  with assms show ?thesis by (simp add: write_frame_def prune_if_needed_def)
qed

text \<open>
  Claim C10. For every pair of input strings, the frame \<open>save_context\<close> returns has the
  empty mapping as \<open>preferences.other\<close>, and that frame is what the last line of the
  store holds afterwards.
\<close>

theorem save_context_other_empty:
  assumes "fst (save_context now u a st) = Returns f"
  shows "other (preferences f) = [] \<and>
         snd (save_context now u a st) \<noteq> [] \<and>
         last (snd (save_context now u a st)) = Parsed (RecapFrame_to_dict f)"
proof (cases "make_frame now u a")
  case (Returns g)
  obtain r st' where w: "write_frame g st = (r, st')" by (cases "write_frame g st")
  with assms Returns have "g = f" "r = Returns ()"
    by (auto simp: save_context_def split: outcome.splits)
  with w write_frame_last [of f st "()"] make_frame_other [OF Returns] Returns
  show ?thesis by (simp add: save_context_def)
next
  case (Raises e)
  with assms show ?thesis by (simp add: save_context_def)
next
  case Unmodelled
  with assms show ?thesis by (simp add: save_context_def)
qed

theorem save_context_other_empty_witness:
  "fst (save_context ''t'' [] [] []) = Returns
     \<lparr>timestamp = ''t'', key_topics = [], distilled_user_intent = [],
      distilled_system_output = [], tags = [''general''],
      semantic = \<lparr>concepts = [], notes = []\<rparr>,
      procedural = \<lparr>workflows = [], checklists = []\<rparr>,
      project_state = \<lparr>project_name = [], summary = [], ProjectState.active_workstream = [],
         pending_tasks = [], ProjectState.constraints = []\<rparr>,
      preferences = \<lparr>style = [], tone = [], Preferences.constraints = [], other = []\<rparr>,
      raw_user_message = [], raw_assistant_message = []\<rparr> \<and>
   snd (save_context ''t'' [] [] []) \<noteq> []"
proof -
  let ?f = "\<lparr>timestamp = ''t'', key_topics = [], distilled_user_intent = [],
      distilled_system_output = [], tags = [''general''],
      semantic = \<lparr>concepts = [], notes = []\<rparr>,
      procedural = \<lparr>workflows = [], checklists = []\<rparr>,
      project_state = \<lparr>project_name = [], summary = [], ProjectState.active_workstream = [],
         pending_tasks = [], ProjectState.constraints = []\<rparr>,
      preferences = \<lparr>style = [], tone = [], Preferences.constraints = [], other = []\<rparr>,
      raw_user_message = [], raw_assistant_message = []\<rparr>"
  have h: "fst (save_context ''t'' [] [] []) = Returns ?f" by code_simp
  from save_context_other_empty [OF h] h show ?thesis by simp
qed

section \<open>The project name\<close>

lemma after_first_None:
  "marker \<noteq> [] \<Longrightarrow> after_first marker s = None \<longleftrightarrow> \<not> py_in marker s"
  by (induction s) (auto simp: py_in_def sublist_Cons_right)

lemma py_in_lower: "py_in m s \<Longrightarrow> py_in (py_lower m) (py_lower s)"
  unfolding py_in_def py_lower_def sublist_def by (metis map_append)

lemma lower_project: "py_lower ''project:'' = ''project:''"
  by code_simp

lemma lower_project_name: "py_lower ''project name:'' = ''project name:''"
  by code_simp

lemma project_name_loop_first:
  "list_all lower_case_markers lines \<Longrightarrow>
   project_name_loop lines = Returns (first_project_name lines)"
proof (induction lines)
  case Nil
  then show ?case by simp
next
  case (Cons line lines)
  then have ih: "project_name_loop lines = Returns (first_project_name lines)"
    and lc: "lower_case_markers line" by simp_all
  have a: "py_in ''project:'' (py_lower line) \<Longrightarrow> after_first ''project:'' line \<noteq> None"
    using lc by (simp add: lower_case_markers_def after_first_None)
  have b: "py_in ''project name:'' (py_lower line) \<Longrightarrow>
           after_first ''project name:'' line \<noteq> None"
    using lc by (simp add: lower_case_markers_def after_first_None)
  have c: "\<not> py_in ''project:'' (py_lower line) \<Longrightarrow> after_first ''project:'' line = None"
    using py_in_lower [of "''project:''" line] by (auto simp: lower_project after_first_None)
  have d: "\<not> py_in ''project name:'' (py_lower line) \<Longrightarrow>
           after_first ''project name:'' line = None"
    using py_in_lower [of "''project name:''" line]
    by (auto simp: lower_project_name after_first_None)
  show ?case
    using a b c d ih
    by (auto simp: Let_def line_project_name_def marker_rest_def split: option.splits)
qed

text \<open>
  Claim C9, as the code has it. The lines of the combined text are read in order, and
  the first line that gives a name decides: a line gives the stripped text after its
  first \<open>project:\<close> when that text is not empty, and otherwise the stripped text after
  its first \<open>project name:\<close> when that is not empty. So \<open>project:\<close> comes before
  \<open>project name:\<close> within a line only, and an earlier line wins over a later one
  whichever marker it carries. This is for texts whose markers are written in lower
  case, as the code looks for them in the lowercased line and cuts the line as written.
\<close>

theorem extract_project_state_first_line:
  assumes "list_all lower_case_markers (splitlines [] (u @ [CHR 0x0A] @ a))"
  shows "\<exists>ps. extract_project_state u a = Returns ps \<and>
              project_name ps = first_project_name (splitlines [] (u @ [CHR 0x0A] @ a))"
  using project_name_loop_first [OF assms]
  by (simp add: extract_project_state_def Let_def)

theorem extract_project_state_first_line_witness:
  "list_all lower_case_markers
     (splitlines [] ((''project name: Alpha'' @ [CHR 0x0A] @ ''project: Beta'') @ [CHR 0x0A] @ [])) \<and>
   (\<exists>ps. extract_project_state (''project name: Alpha'' @ [CHR 0x0A] @ ''project: Beta'') []
           = Returns ps \<and> project_name ps = ''Alpha'')"
proof -
  have h: "list_all lower_case_markers
     (splitlines [] ((''project name: Alpha'' @ [CHR 0x0A] @ ''project: Beta'') @ [CHR 0x0A] @ []))"
    by code_simp
  have v: "first_project_name
     (splitlines [] ((''project name: Alpha'' @ [CHR 0x0A] @ ''project: Beta'') @ [CHR 0x0A] @ []))
     = ''Alpha''"
    by code_simp
  from extract_project_state_first_line [OF h] v h show ?thesis by simp
qed

text \<open>
  Claim C9 as stated fails: with \<open>project name: Alpha\<close> on the first line and
  \<open>project: Beta\<close> on the second, the code takes \<open>Alpha\<close>, where a \<open>project:\<close> match that
  wins anywhere in the text would give \<open>Beta\<close>.
\<close>

theorem project_name_earlier_line_wins:
  "project_name_loop
     (splitlines [] ((''project name: Alpha'' @ [CHR 0x0A] @ ''project: Beta'') @ [CHR 0x0A] @ []))
     = Returns ''Alpha'' \<and>
   claimed_project_name
     (splitlines [] ((''project name: Alpha'' @ [CHR 0x0A] @ ''project: Beta'') @ [CHR 0x0A] @ []))
     = ''Beta''"
  by code_simp

section \<open>Loading with an empty query\<close>

text \<open>
  Claim C1 fails on the code. After the two interactions of the scenario, the second
  frame's summary is its user text, and \<open>load_context\<close> with an empty query returns
  the summary of the first, older frame: \<open>retrieve_relevant_frames\<close> sorts by
  descending score, so the frames come newest first and the loop of
  \<open>reconstruct_state\<close>, which keeps the last value that is not empty, ends on the
  oldest frame. The active workstream is not empty, as the claim says.
\<close>

theorem orion_summary_from_older_frame:
  "map_option (\<lambda>f. summary (project_state f)) (returned (fst orion_second))
     = Some ''project: Orion. I am currently migrating the database'' \<and>
   map_option project_summary (returned (load_context [] (snd orion_second)))
     = Some ''hello'' \<and>
   map_option ContextBundle.active_workstream (returned (load_context [] (snd orion_second)))
     = Some ''project: Orion. I am currently migrating the database''"
  by code_simp

text \<open>
  Claim C2 fails on the code. For a store of two frames and an empty query the
  supporting frames come newest first, and the style of the bundle is the one of the
  older frame.
\<close>

theorem style_from_older_frame:
  "map_option (\<lambda>b. map timestamp (supporting_frames b)) (returned (load_context [] style_store))
     = Some [''2024-01-01T00:00:01Z'', ''2024-01-01T00:00:00Z''] \<and>
   map_option (\<lambda>b. map (\<lambda>f. style (preferences f)) (supporting_frames b))
       (returned (load_context [] style_store))
     = Some [''detailed'', ''concise''] \<and>
   map_option (\<lambda>b. style (user_prefs b)) (returned (load_context [] style_store))
     = Some ''concise''"
  by code_simp

section \<open>Keyword extraction\<close>

lemma counter_add_keys:
  "map fst (counter_add c t) = (if t \<in> set (map fst c) then map fst c else map fst c @ [t])"
  by (induction c t rule: counter_add.induct) auto

lemma counter_add_distinct:
  "distinct (map fst c) \<Longrightarrow> distinct (map fst (counter_add c t))"
  by (simp add: counter_add_keys)

lemma counter_add_map_of:
  "map_of (counter_add c t) k =
     (if k = t then Some (case map_of c t of None \<Rightarrow> 1 | Some n \<Rightarrow> n + 1) else map_of c k)"
  by (induction c t rule: counter_add.induct) auto

lemma foldl_counter_distinct:
  "distinct (map fst c) \<Longrightarrow> distinct (map fst (foldl counter_add c toks))"
  by (induction toks arbitrary: c) (auto simp: counter_add_distinct)

lemma counter_add_key_set: "fst ` set (counter_add c t) = insert t (fst ` set c)"
  by (induction c t rule: counter_add.induct) auto

lemma foldl_counter_keys:
  "fst ` set (foldl counter_add c toks) = fst ` set c \<union> set toks"
  by (induction toks arbitrary: c) (auto simp: counter_add_key_set)

lemma foldl_counter_map_of:
  "map_of (foldl counter_add c toks) k =
     (if k \<in> set toks
      then Some ((case map_of c k of None \<Rightarrow> 0 | Some n \<Rightarrow> n) + int (count_list toks k))
      else map_of c k)"
proof (induction toks arbitrary: c)
  case Nil
  then show ?case by simp
next
  case (Cons t toks)
  show ?case
    by (simp add: Cons counter_add_map_of split: option.splits)
qed

lemma count_tokens_filter:
  "count_tokens c toks = foldl counter_add c (filter (\<lambda>t. t \<notin> STOPWORDS) toks)"
  unfolding count_tokens_def by (induction toks arbitrary: c) auto

lemma count_texts_from:
  "foldl (\<lambda>counter text. count_tokens counter (tokenize text)) c texts =
   foldl counter_add c (filter (\<lambda>t. t \<notin> STOPWORDS) (concat (map tokenize texts)))"
  by (induction texts arbitrary: c) (auto simp: count_tokens_filter)

lemma count_texts_kept: "count_texts texts = foldl counter_add [] (kept_tokens texts)"
  by (simp add: count_texts_def kept_tokens_def count_texts_from)

lemma counter_distinct: "distinct (map fst (count_texts texts))"
  by (simp add: count_texts_kept foldl_counter_distinct)

lemma counter_keys: "fst ` set (count_texts texts) = set (kept_tokens texts)"
  by (simp add: count_texts_kept foldl_counter_keys)

lemma counter_set:
  "set (count_texts texts) = (\<lambda>k. (k, int (count_list (kept_tokens texts) k))) ` set (kept_tokens texts)"
proof -
  have m: "map_of (count_texts texts) k =
        (if k \<in> set (kept_tokens texts) then Some (int (count_list (kept_tokens texts) k)) else None)" for k
    by (simp add: count_texts_kept foldl_counter_map_of)
  show ?thesis
  proof (intro set_eqI iffI)
    fix p assume "p \<in> set (count_texts texts)"
    then have "map_of (count_texts texts) (fst p) = Some (snd p)"
      using counter_distinct [of texts] by (metis map_of_eq_Some_iff prod.collapse)
    then show "p \<in> (\<lambda>k. (k, int (count_list (kept_tokens texts) k))) ` set (kept_tokens texts)"
      by (cases p) (auto simp: m split: if_splits)
  next
    fix p assume "p \<in> (\<lambda>k. (k, int (count_list (kept_tokens texts) k))) ` set (kept_tokens texts)"
    then obtain k where k: "k \<in> set (kept_tokens texts)"
      "p = (k, int (count_list (kept_tokens texts) k))" by blast
    then have "map_of (count_texts texts) k = Some (snd p)" by (simp add: m)
    then show "p \<in> set (count_texts texts)" using k by (auto dest: map_of_SomeD)
  qed
qed

lemma kept_count: "k \<notin> STOPWORDS \<Longrightarrow> int (count_list (kept_tokens texts) k) = frequency texts k"
proof -
  have "count_list (filter P xs) k = count_list xs k" if "P k" for P and xs :: "string list"
    using that by (induction xs) auto
  then show "k \<notin> STOPWORDS \<Longrightarrow> int (count_list (kept_tokens texts) k) = frequency texts k"
    by (simp add: kept_tokens_def frequency_def)
qed

lemma kept_not_stopword: "k \<in> set (kept_tokens texts) \<Longrightarrow> k \<notin> STOPWORDS"
  by (simp add: kept_tokens_def)

lemma counter_entry:
  assumes "p \<in> set (count_texts texts)"
  shows "fst p \<notin> STOPWORDS \<and> snd p = frequency texts (fst p)"
proof -
  from assms obtain k where k: "k \<in> set (kept_tokens texts)"
    "p = (k, int (count_list (kept_tokens texts) k))"
    by (auto simp: counter_set)
  with kept_not_stopword [OF k(1)] kept_count [of k texts] show ?thesis by simp
qed

lemma kept_tokens_mset:
  assumes "mset texts = mset texts'"
  shows "mset (kept_tokens texts) = mset (kept_tokens texts')"
proof -
  have "mset (concat (map tokenize texts)) = mset (concat (map tokenize texts'))"
    using assms by (metis mset_concat mset_map sum_mset_sum_list)
  then show ?thesis by (simp add: kept_tokens_def)
qed

lemma count_texts_mset:
  assumes "mset texts = mset texts'"
  shows "mset (count_texts texts) = mset (count_texts texts')"
proof -
  from kept_tokens_mset [OF assms]
  have k: "mset (kept_tokens texts) = mset (kept_tokens texts')" .
  then have "set (kept_tokens texts) = set (kept_tokens texts')" by (rule mset_eq_setD)
  moreover have "count_list (kept_tokens texts) t = count_list (kept_tokens texts') t" for t
    using k by (metis count_mset)
  ultimately have "set (count_texts texts) = set (count_texts texts')"
    by (simp add: counter_set)
  moreover have "distinct (count_texts texts)" "distinct (count_texts texts')"
    using counter_distinct by (auto simp: distinct_map)
  ultimately show ?thesis by (simp add: set_eq_iff_mset_eq_distinct)
qed

lemma key_inj: "inj_on (\<lambda>kv :: string \<times> int. (- snd kv, fst kv)) A"
  by (auto simp: inj_on_def prod_eq_iff)

lemma extract_keywords_perm:
  assumes "mset texts = mset texts'"
  shows "extract_keywords texts k = extract_keywords texts' k"
proof -
  have m: "mset (count_texts texts) = mset (count_texts texts')"
    using assms by (rule count_texts_mset)
  have "sort_key (\<lambda>kv. (- snd kv, fst kv)) (count_texts texts) =
        sort_key (\<lambda>kv. (- snd kv, fst kv)) (count_texts texts')"
    by (rule sort_key_inj_key_eq) (simp_all add: m key_inj)
  moreover have "count_texts texts = [] \<longleftrightarrow> count_texts texts' = []"
    using m by (metis mset_zero_iff)
  ultimately show ?thesis by (simp add: extract_keywords_def Let_def)
qed

lemma py_take_length: "0 \<le> k \<Longrightarrow> int (length (py_take k xs)) \<le> k"
  by (simp add: py_take_def slice_end_def)

lemma extract_keywords_length: "0 \<le> k \<Longrightarrow> int (length (extract_keywords texts k)) \<le> k"
  by (simp add: extract_keywords_def Let_def py_take_length)

lemma py_take_subset: "set (py_take k xs) \<subseteq> set xs"
  by (auto simp: py_take_def dest: in_set_takeD)

lemma extract_keywords_subset:
  "set (extract_keywords texts k) \<subseteq> set (kept_tokens texts)"
proof
  fix t assume "t \<in> set (extract_keywords texts k)"
  then obtain p where "p \<in> set (py_take k (sort_key (\<lambda>kv. (- snd kv, fst kv)) (count_texts texts)))"
    "t = fst p"
    by (auto simp: extract_keywords_def Let_def split: if_splits)
  then have "p \<in> set (count_texts texts)" "t = fst p"
    using py_take_subset by fastforce+
  then show "t \<in> set (kept_tokens texts)"
    using counter_keys [of texts] by (metis imageI)
qed

lemma extract_keywords_sorted:
  "sorted_wrt (\<lambda>s t. frequency texts t < frequency texts s \<or>
                 (frequency texts s = frequency texts t \<and> s < t))
     (extract_keywords texts k)"
proof -
  let ?key = "\<lambda>kv :: string \<times> int. (- snd kv, fst kv)"
  let ?items = "sort_key ?key (count_texts texts)"
  let ?Q = "\<lambda>a b :: string \<times> int. frequency texts (fst b) < frequency texts (fst a) \<or>
       (frequency texts (fst a) = frequency texts (fst b) \<and> fst a < fst b)"
  have "sorted (map ?key ?items)" by simp
  moreover have "distinct (map ?key ?items)"
    using counter_distinct [of texts]
    by (simp add: distinct_map key_inj)
  ultimately have "sorted_wrt (<) (map ?key ?items)" by (simp only: strict_sorted_iff)
  then have s: "sorted_wrt (\<lambda>a b. ?key a < ?key b) (py_take k ?items)"
    unfolding py_take_def sorted_wrt_map by (rule sorted_wrt_take)
  have sub: "p \<in> set (py_take k ?items) \<Longrightarrow> p \<in> set (count_texts texts)" for p
    using py_take_subset [of k ?items] by auto
  have "sorted_wrt ?Q (py_take k ?items)"
  proof (rule sorted_wrt_mono_rel [OF _ s])
    fix a b assume a: "a \<in> set (py_take k ?items)" and b: "b \<in> set (py_take k ?items)"
      and l: "?key a < ?key b"
    from counter_entry [OF sub [OF a]] counter_entry [OF sub [OF b]]
    have "snd a = frequency texts (fst a)" "snd b = frequency texts (fst b)" by simp_all
    with l show "?Q a b" by (auto simp: less_prod_def)
  qed
  then show ?thesis
    by (simp add: extract_keywords_def Let_def sorted_wrt_map)
qed

text \<open>
  Claim C5, as the code has it. For every sequence of texts and every \<open>max_keywords\<close>
  that is not negative, \<open>extract_keywords\<close> returns at most \<open>max_keywords\<close> tokens;
  none of them is a stopword; they are ordered by descending frequency, tokens of equal
  frequency in ascending order; the result is empty when no token other than stopwords
  remains; and a permutation of the texts gives the same result.
\<close>

theorem extract_keywords_properties:
  assumes "0 \<le> max_keywords" and "mset texts = mset texts'"
  shows "int (length (extract_keywords texts max_keywords)) \<le> max_keywords \<and>
         set (extract_keywords texts max_keywords) \<inter> STOPWORDS = {} \<and>
         sorted_wrt (\<lambda>s t. frequency texts t < frequency texts s \<or>
                       (frequency texts s = frequency texts t \<and> s < t))
           (extract_keywords texts max_keywords) \<and>
         (kept_tokens texts = [] \<longrightarrow> extract_keywords texts max_keywords = []) \<and>
         extract_keywords texts' max_keywords = extract_keywords texts max_keywords"
proof (intro conjI impI)
  show "int (length (extract_keywords texts max_keywords)) \<le> max_keywords"
    using assms(1) by (rule extract_keywords_length)
  show "set (extract_keywords texts max_keywords) \<inter> STOPWORDS = {}"
    using extract_keywords_subset [of texts max_keywords] kept_not_stopword [of _ texts]
    by blast
  show "sorted_wrt (\<lambda>s t. frequency texts t < frequency texts s \<or>
                       (frequency texts s = frequency texts t \<and> s < t))
           (extract_keywords texts max_keywords)"
    by (rule extract_keywords_sorted)
  show "extract_keywords texts max_keywords = []" if "kept_tokens texts = []"
    using that by (simp add: extract_keywords_def count_texts_kept)
  show "extract_keywords texts' max_keywords = extract_keywords texts max_keywords"
    by (rule extract_keywords_perm [OF assms(2), symmetric])
qed

theorem extract_keywords_properties_witness:
  "(0::int) \<le> 3 \<and> mset [''the b2 a1 b2'', ''zz a1 c c''] = mset [''zz a1 c c'', ''the b2 a1 b2''] \<and>
   extract_keywords [''the b2 a1 b2'', ''zz a1 c c''] 3 = [''a1'', ''b2'', ''c''] \<and>
   extract_keywords [''zz a1 c c'', ''the b2 a1 b2''] 3 = [''a1'', ''b2'', ''c'']"
proof -
  have h: "mset [''the b2 a1 b2'', ''zz a1 c c''] = mset [''zz a1 c c'', ''the b2 a1 b2'']"
    by (simp add: add_mset_commute)
  have v: "extract_keywords [''the b2 a1 b2'', ''zz a1 c c''] 3 = [''a1'', ''b2'', ''c'']"
    by code_simp
  from extract_keywords_properties [OF _ h, of 3] v h show ?thesis by simp
qed

text \<open>
  Claim C5 as stated fails for a negative \<open>max_keywords\<close>: \<open>items[:-1]\<close> drops the last
  item only, so one token is returned where the bound is \<open>-1\<close>.
\<close>

theorem extract_keywords_negative_bound:
  "extract_keywords [''a1 b2''] (- 1) = [''a1'']"
  by code_simp

section \<open>Text compression\<close>

lemma is_space_sp [simp]: "is_space sp"
  by (simp add: is_space_def)

lemma ws_Cons: "ws (c # cs) \<Longrightarrow> ws cs"
  by (cases cs) auto

lemma ws_Cons_iff:
  "ws (c # cs) \<longleftrightarrow> (is_space c \<longrightarrow> c = sp) \<and> (cs \<noteq> [] \<longrightarrow> \<not> (c = sp \<and> hd cs = sp)) \<and> ws cs"
  by (cases cs) auto

lemma ws_append:
  "ws (xs @ ys) \<longleftrightarrow> ws xs \<and> ws ys \<and> (xs \<noteq> [] \<longrightarrow> ys \<noteq> [] \<longrightarrow> \<not> (last xs = sp \<and> hd ys = sp))"
proof (induction xs)
  case Nil
  then show ?case by simp
next
  case (Cons x xs)
  show ?case
  proof (cases xs)
    case Nil
    then show ?thesis by (cases ys) (auto simp: ws_Cons_iff)
  next
    case (Cons a list)
    with Cons.IH show ?thesis by (auto simp: ws_Cons_iff)
  qed
qed

lemma ws_space: "ws s \<Longrightarrow> c \<in> set s \<Longrightarrow> is_space c \<Longrightarrow> c = sp"
  by (induction s) (auto simp: ws_Cons_iff)

lemma join_Cons: "L \<noteq> [] \<Longrightarrow> py_join sep (x # L) = x @ sep @ py_join sep L"
  by (cases L) auto

lemma split_join_gen:
  "ws s \<Longrightarrow> (s \<noteq> [] \<longrightarrow> \<not> is_space (last s)) \<Longrightarrow> (cur = [] \<longrightarrow> s \<noteq> [] \<longrightarrow> \<not> is_space (hd s)) \<Longrightarrow>
   py_join '' '' (split_runs is_space cur s) = cur @ s"
proof (induction s arbitrary: cur)
  case Nil
  then show ?case by simp
next
  case (Cons c cs)
  show ?case
  proof (cases "is_space c")
    case True
    with Cons.prems have c: "c = sp" and cur: "cur \<noteq> []" and cs: "cs \<noteq> []"
      and h: "hd cs \<noteq> sp" and w: "ws cs"
      by (auto simp: ws_Cons_iff)
    from w h cs have "\<not> is_space (hd cs)" using ws_space [of cs "hd cs"] by auto
    with Cons.IH [of "[]"] w cs Cons.prems(2)
    have j: "py_join '' '' (split_runs is_space [] cs) = cs" by simp
    with cs have "split_runs is_space [] cs \<noteq> []" by auto
    with True cur j c show ?thesis by (simp add: join_Cons)
  next
    case False
    with Cons.prems have "ws cs" "cs \<noteq> [] \<longrightarrow> \<not> is_space (last cs)"
      by (auto simp: ws_Cons_iff)
    with Cons.IH [of "cur @ [c]"] False show ?thesis by simp
  qed
qed

lemma rstrip_id: "(s \<noteq> [] \<longrightarrow> \<not> is_space (last s)) \<Longrightarrow> py_rstrip s = s"
  by (cases s rule: rev_cases) (auto simp: py_rstrip_def)

lemma lstrip_id: "(s \<noteq> [] \<longrightarrow> \<not> is_space (hd s)) \<Longrightarrow> py_lstrip s = s"
  by (cases s) (auto simp: py_lstrip_def)

lemma normalized_strip: "normalized s \<Longrightarrow> py_strip s = s"
  by (simp add: normalized_def py_strip_def lstrip_id rstrip_id)

lemma normalized_clean: "normalized s \<Longrightarrow> py_join '' '' (py_split (py_strip s)) = s"
  using split_join_gen [of s "[]"]
  by (simp add: normalized_strip py_split_def) (simp add: normalized_def)

lemma split_runs_words:
  "(\<forall>c\<in>set cur. \<not> sep c) \<Longrightarrow> w \<in> set (split_runs sep cur s) \<Longrightarrow>
   w \<noteq> [] \<and> (\<forall>c\<in>set w. \<not> sep c)"
proof (induction s arbitrary: cur)
  case Nil
  then show ?case by (auto split: if_splits)
next
  case (Cons a s)
  show ?case
  proof (cases "sep a")
    case True
    with Cons.prems have "w = cur \<and> cur \<noteq> [] \<or> w \<in> set (split_runs sep [] s)"
      by (auto split: if_splits)
    then show ?thesis
    proof
      assume "w = cur \<and> cur \<noteq> []"
      with Cons.prems show ?thesis by simp
    next
      assume "w \<in> set (split_runs sep [] s)"
      with Cons.IH [of "[]"] show ?thesis by simp
    qed
  next
    case False
    with Cons.prems have "w \<in> set (split_runs sep (cur @ [a]) s)" by simp
    with Cons.IH [of "cur @ [a]"] Cons.prems False show ?thesis by simp
  qed
qed

lemma ws_nospace: "(\<forall>c\<in>set x. \<not> is_space c) \<Longrightarrow> ws x"
  by (induction x rule: ws.induct) auto

lemma normalized_Nil [simp]: "normalized []"
  by (simp add: normalized_def)

lemma normalized_word: "x \<noteq> [] \<Longrightarrow> (\<forall>c\<in>set x. \<not> is_space c) \<Longrightarrow> normalized x"
  by (simp add: normalized_def ws_nospace)

lemma normalized_hd_sp: "normalized r \<Longrightarrow> r \<noteq> [] \<Longrightarrow> hd r \<noteq> sp"
  by (auto simp: normalized_def)

lemma normalized_last_sp: "normalized r \<Longrightarrow> r \<noteq> [] \<Longrightarrow> last r \<noteq> sp"
  by (auto simp: normalized_def)

lemma normalized_join2:
  assumes "normalized a" "a \<noteq> []" "normalized b" "b \<noteq> []"
  shows "normalized (a @ sp # b)"
proof -
  have "ws (sp # b)" using assms(3,4) by (auto simp: ws_Cons_iff normalized_def)
  then have "ws (a @ sp # b)"
    using assms(1,2) by (auto simp: ws_append normalized_def)
  then show ?thesis using assms by (simp add: normalized_def)
qed

lemma words_join_normalized:
  "(\<forall>w\<in>set W. w \<noteq> [] \<and> (\<forall>c\<in>set w. \<not> is_space c)) \<Longrightarrow> normalized (py_join '' '' W)"
proof (induction W)
  case Nil
  then show ?case by simp
next
  case (Cons x W)
  from Cons.prems have x: "normalized x" "x \<noteq> []" by (simp_all add: normalized_word)
  show ?case
  proof (cases W)
    case Nil
    with x show ?thesis by simp
  next
    case (Cons y ys)
    from Cons.prems Cons.IH have r: "normalized (py_join '' '' W)" by simp
    have ne: "py_join '' '' W \<noteq> []" using Cons.prems Cons by (cases ys) auto
    from x r ne Cons show ?thesis by (simp add: normalized_join2)
  qed
qed

lemma cleaned_normalized: "normalized (py_join '' '' (py_split (py_strip t)))"
  unfolding py_split_def
  by (rule words_join_normalized) (use split_runs_words [of "[]" is_space] in auto)

lemma delim_not_space: "is_delim x \<Longrightarrow> \<not> is_space x"
  by (auto simp: is_delim_def is_space_def)

lemma py_in_delims_single: "is_delim x \<Longrightarrow> py_in [x] ''.!?''"
  by (auto simp: is_delim_def py_in_def sublist_Cons_right)

lemma py_in_delims: "py_in part ''.!?'' \<Longrightarrow> c \<in> set part \<Longrightarrow> is_delim c"
proof -
  assume "py_in part ''.!?''" "c \<in> set part"
  then have "c \<in> set ''.!?''" unfolding py_in_def by (meson set_mono_sublist subsetD)
  then show ?thesis by (auto simp: is_delim_def)
qed

lemma strip_snoc: "\<not> is_space x \<Longrightarrow> py_strip (cur @ [x]) = dropWhile is_space cur @ [x]"
proof -
  assume x: "\<not> is_space x"
  have "dropWhile is_space (cur @ [x]) = dropWhile is_space cur @ [x]"
    using x by (induction cur) auto
  then show ?thesis using x by (simp add: py_strip_def py_lstrip_def py_rstrip_def)
qed

lemma sentence_loop_scan:
  "(\<forall>c\<in>set cur. \<not> is_delim c) \<Longrightarrow>
   finalize (sentence_loop (re_split_delims cur s) (acc, cur0)) = acc @ scan (cur0 @ cur) s"
proof (induction s arbitrary: cur acc cur0)
  case Nil
  have "\<not> py_in cur ''.!?''" if "cur \<noteq> []"
  proof
    assume "py_in cur ''.!?''"
    with that have "is_delim (hd cur)" by (auto intro: py_in_delims)
    with Nil that show False by (cases cur) auto
  qed
  then show ?case by (auto simp: finalize_def Let_def)
next
  case (Cons x xs)
  show ?case
  proof (cases "is_delim x")
    case True
    have nd: "\<not> py_in cur ''.!?''" if "cur \<noteq> []"
    proof
      assume "py_in cur ''.!?''"
      with that have "is_delim (hd cur)" by (auto intro: py_in_delims)
      with Cons.prems that show False by (cases cur) auto
    qed
    have ne: "py_strip (cur0 @ cur @ [x]) \<noteq> []"
      using strip_snoc [of x "cur0 @ cur"] True by (simp add: delim_not_space)
    have "sentence_loop (re_split_delims cur (x # xs)) (acc, cur0) =
          sentence_loop (re_split_delims [] xs) (acc @ [py_strip (cur0 @ cur @ [x])], [])"
      using True nd ne by (cases "cur = []") (simp_all add: Let_def py_in_delims_single)
    with Cons.IH [of "[]" "acc @ [py_strip (cur0 @ cur @ [x])]" "[]"] True
    show ?thesis by simp
  next
    case False
    with Cons.IH [of "cur @ [x]" acc cur0] Cons.prems show ?thesis by simp
  qed
qed

lemma split_sentences_scan: "split_sentences s = scan [] s"
  using sentence_loop_scan [of "[]" s "[]" "[]"]
  by (simp add: split_sentences_def finalize_def split: prod.splits)

lemma sentences_ok_Cons: "closed a \<Longrightarrow> sentences_ok L \<Longrightarrow> sentences_ok (a # L)"
  by (cases L) auto

lemma sentences_ok_tl: "sentences_ok (a # L) \<Longrightarrow> sentences_ok L"
  by (cases L) auto

lemma sentences_ok_hd: "sentences_ok (a # L) \<Longrightarrow> closed a \<or> opened a"
  by (cases L) auto

lemma sentences_ok_hd_closed: "sentences_ok (a # L) \<Longrightarrow> L \<noteq> [] \<Longrightarrow> closed a"
  by (cases L) auto

lemma closed_not_opened: "closed s \<Longrightarrow> \<not> opened s"
  by (auto simp: closed_def opened_def)

lemma strip_sentence:
  assumes "ws (b @ [l])" "\<not> is_space l"
  shows "normalized (py_strip (b @ [l]))" and "py_strip (b @ [l]) = dropWhile is_space b @ [l]"
proof -
  show e: "py_strip (b @ [l]) = dropWhile is_space b @ [l]"
    using assms(2) by (rule strip_snoc)
  have "b @ [l] = takeWhile is_space b @ (dropWhile is_space b @ [l])" by simp
  with assms(1) have w: "ws (dropWhile is_space b @ [l])" by (metis ws_append)
  have "\<not> is_space (hd (dropWhile is_space b @ [l]))"
  proof (cases "dropWhile is_space b")
    case Nil
    have "hd (dropWhile is_space b @ [l]) = l" unfolding Nil by simp
    with assms(2) show ?thesis by metis
  next
    case (Cons a as)
    have "hd (dropWhile is_space b @ [l]) = hd (dropWhile is_space b)" unfolding Cons by simp
    moreover have "dropWhile is_space b \<noteq> []" unfolding Cons by simp
    ultimately show ?thesis using hd_dropWhile [of is_space b] by metis
  qed
  with w assms(2) show "normalized (py_strip (b @ [l]))" by (simp add: e normalized_def)
qed

lemma scan_ok:
  "ws (cur @ s) \<Longrightarrow> (cur @ s \<noteq> [] \<longrightarrow> \<not> is_space (last (cur @ s))) \<Longrightarrow>
   (\<forall>c\<in>set cur. \<not> is_delim c) \<Longrightarrow> sentences_ok (scan cur s)"
proof (induction s arbitrary: cur)
  case Nil
  show ?case
  proof (cases "cur = []")
    case True
    then show ?thesis by simp
  next
    case False
    then obtain b l where c: "cur = b @ [l]" by (metis rev_exhaust)
    with Nil have "ws (b @ [l])" "\<not> is_space l" by auto
    from strip_sentence [OF this] Nil.prems(3) c
    have "opened (py_strip cur)" by (auto simp: opened_def dest: set_dropWhileD)
    with False show ?thesis by simp
  qed
next
  case (Cons x xs)
  show ?case
  proof (cases "is_delim x")
    case True
    from Cons.prems(1) have w: "ws (cur @ [x])" "ws xs"
      using ws_append [of "cur @ [x]" xs] by auto
    from strip_sentence [OF w(1) delim_not_space [OF True]] True Cons.prems(3)
    have "closed (py_strip (cur @ [x]))" by (auto simp: closed_def dest: set_dropWhileD)
    moreover have "sentences_ok (scan [] xs)"
    proof (cases "xs = []")
      case True
      then show ?thesis by simp
    next
      case False
      with Cons.IH [of "[]"] w(2) Cons.prems(2) show ?thesis by simp
    qed
    ultimately show ?thesis using True by (simp add: sentences_ok_Cons)
  next
    case False
    with Cons.IH [of "cur @ [x]"] Cons.prems show ?thesis by simp
  qed
qed

lemma scan_normalized_ok: "normalized c \<Longrightarrow> sentences_ok (scan [] c)"
  using scan_ok [of "[]" c] by (simp add: normalized_def)

lemma scan_prefix: "(\<forall>c\<in>set b. \<not> is_delim c) \<Longrightarrow> scan cur (b @ rest) = scan (cur @ b) rest"
  by (induction b arbitrary: cur) auto

lemma strip_sp_normalized:
  "normalized s \<Longrightarrow> cur = [] \<or> cur = [sp] \<Longrightarrow> py_strip (cur @ s) = s"
  by (cases s) (auto simp: normalized_def py_strip_def py_lstrip_def rstrip_id)

lemma scan_closed:
  assumes "closed s" "cur = [] \<or> cur = [sp]"
  shows "scan cur (s @ rest) = s # scan [] rest"
proof -
  from assms(1) have s: "s = butlast s @ [last s]" "is_delim (last s)"
    "\<forall>c\<in>set (butlast s). \<not> is_delim c" "normalized s"
    by (auto simp: closed_def)
  have "scan cur (s @ rest) = scan cur (butlast s @ (last s # rest))"
    using s(1) by (metis append_Cons append_Nil append_assoc)
  also have "\<dots> = scan (cur @ butlast s) (last s # rest)"
    using s(3) by (rule scan_prefix)
  also have "\<dots> = py_strip (cur @ s) # scan [] rest"
    using s(1,2) by (metis append_assoc scan.simps(2))
  finally show ?thesis using strip_sp_normalized [OF s(4) assms(2)] by simp
qed

lemma scan_opened:
  assumes "opened s" "cur = [] \<or> cur = [sp]"
  shows "scan cur s = [s]"
proof -
  from assms(1) have s: "\<forall>c\<in>set s. \<not> is_delim c" "normalized s" "s \<noteq> []"
    by (auto simp: opened_def)
  have "scan cur s = scan (cur @ s) []" using scan_prefix [OF s(1), of cur "[]"] by simp
  then show ?thesis using s(3) strip_sp_normalized [OF s(2) assms(2)] by simp
qed

lemma sp_not_delim: "\<not> is_delim sp"
  by (simp add: is_delim_def)

lemma scan_join:
  "sentences_ok L \<Longrightarrow> L \<noteq> [] \<Longrightarrow> cur = [] \<or> cur = [sp] \<Longrightarrow> scan cur (py_join '' '' L) = L"
proof (induction L arbitrary: cur rule: sentences_ok.induct)
  case 1
  then show ?case by simp
next
  case (2 s)
  then show ?case using scan_closed [of s cur "[]"] scan_opened [of s cur] by auto
next
  case (3 s t ts)
  then have c: "closed s" by simp
  have "scan cur (py_join '' '' (s # t # ts)) = s # scan [] (sp # py_join '' '' (t # ts))"
    using scan_closed [OF c "3.prems"(3)] by simp
  also have "scan [] (sp # py_join '' '' (t # ts)) = scan [sp] (py_join '' '' (t # ts))"
    by (simp add: sp_not_delim)
  also have "\<dots> = t # ts" using "3.IH" [of "[sp]"] "3.prems" by simp
  finally show ?case .
qed

lemma dedup_set: "set (dedup_seen S L) = set L - S"
  by (induction L arbitrary: S) auto

lemma dedup_distinct: "distinct (dedup_seen S L)"
  by (induction L arbitrary: S) (auto simp: dedup_set)

lemma dedup_id: "distinct L \<Longrightarrow> set L \<inter> S = {} \<Longrightarrow> dedup_seen S L = L"
  by (induction L arbitrary: S) auto


lemma dedup_ok: "sentences_ok L \<Longrightarrow> sentences_ok (dedup_seen S L)"
proof (induction L arbitrary: S)
  case Nil
  then show ?case by simp
next
  case (Cons s L)
  from Cons.prems have t: "sentences_ok L" by (rule sentences_ok_tl)
  show ?case
  proof (cases "s \<in> S")
    case True
    with Cons.IH [OF t] show ?thesis by simp
  next
    case False
    show ?thesis
    proof (cases "dedup_seen (insert s S) L")
      case Nil
      with False sentences_ok_hd [OF Cons.prems] show ?thesis by simp
    next
      case (Cons t ts)
      then have "L \<noteq> []" by auto
      with sentences_ok_hd_closed [OF Cons.prems] have "closed s" .
      with Cons.IH [OF t, of "insert s S"] False show ?thesis
        by (simp add: sentences_ok_Cons)
    qed
  qed
qed

lemma sentence_normalized: "closed s \<or> opened s \<Longrightarrow> normalized s \<and> s \<noteq> []"
  by (auto simp: closed_def opened_def)

lemma ok_join_normalized:
  "sentences_ok L \<Longrightarrow> normalized (py_join '' '' L) \<and> (L \<noteq> [] \<longrightarrow> py_join '' '' L \<noteq> [])"
proof (induction L rule: sentences_ok.induct)
  case 1
  then show ?case by simp
next
  case (2 s)
  then show ?case using sentence_normalized [of s] by simp
next
  case (3 s t ts)
  then have "normalized s" "s \<noteq> []" using sentence_normalized [of s] by auto
  moreover from 3 have "normalized (py_join '' '' (t # ts))" "py_join '' '' (t # ts) \<noteq> []"
    by auto
  ultimately show ?case using normalized_join2 [of s "py_join '' '' (t # ts)"] by simp
qed

lemma truncate_Nil: "truncate_result [] n = []"
  by (simp add: truncate_result_def py_rfind_def py_take_def Let_def)

lemma compress_text_scan:
  "compress_text t n =
   truncate_result (py_join '' '' (dedup_seen {} (scan [] (py_join '' '' (py_split (py_strip t)))))) n"
  by (simp add: compress_text_def Let_def split_sentences_scan truncate_Nil)

lemma compress_text_join:
  assumes "sentences_ok L" "distinct L"
  shows "compress_text (py_join '' '' L) n = truncate_result (py_join '' '' L) n"
proof (cases "L = []")
  case True
  then show ?thesis by (simp add: compress_text_scan py_strip_def py_lstrip_def py_rstrip_def py_split_def)
next
  case False
  from ok_join_normalized [OF assms(1)] have n: "normalized (py_join '' '' L)" by simp
  from scan_join [OF assms(1) False, of "[]"] dedup_id [OF assms(2), of "{}"]
  show ?thesis by (simp add: compress_text_scan normalized_clean [OF n])
qed

lemma compress_text_stable: "stable s \<Longrightarrow> compress_text s n = truncate_result s n"
  by (auto simp: stable_def compress_text_join)

lemma core_stable:
  "stable (py_join '' '' (dedup_seen {} (scan [] (py_join '' '' (py_split (py_strip t))))))"
  unfolding stable_def
  using dedup_ok [OF scan_normalized_ok [OF cleaned_normalized], of "{}" t] dedup_distinct
  by blast

lemma stable_normalized: "stable s \<Longrightarrow> normalized s"
  by (auto simp: stable_def ok_join_normalized)

lemma prefix_opened:
  assumes "closed s \<or> opened s" "0 < i" "i < length s" "last (take i s) \<noteq> sp"
  shows "opened (take i s)"
proof -
  from assms(1) have n: "normalized s" "s \<noteq> []" by (auto simp: closed_def opened_def)
  have ne: "take i s \<noteq> []" using assms(2) n(2) by simp
  have "ws (take i s @ drop i s)" using n(1) by (simp add: normalized_def)
  then have w: "ws (take i s)" by (simp only: ws_append)
  have h: "hd (take i s) = hd s" using assms(2) by (cases s; cases i) auto
  have "last (take i s) \<in> set (take i s)" using ne by simp
  with w assms(4) have l: "\<not> is_space (last (take i s))" using ws_space by blast
  from n w h l ne have norm: "normalized (take i s)" by (simp add: normalized_def)
  have "set (take i s) \<subseteq> set (butlast s)"
  proof -
    have "take i s = take i (butlast s)" using assms(3) by (simp add: take_butlast)
    then show ?thesis by (metis set_take_subset)
  qed
  moreover have "\<forall>x\<in>set (butlast s). \<not> is_delim x"
    using assms(1) by (auto simp: closed_def opened_def dest: in_set_butlastD)
  ultimately show ?thesis using norm ne by (auto simp: opened_def)
qed

lemma prefix_at_space:
  assumes "closed s \<or> opened s" "i < length s" "s ! i = sp"
  shows "opened (take i s)"
proof -
  from assms(1) have n: "normalized s" "s \<noteq> []" by (auto simp: closed_def opened_def)
  have "hd s \<noteq> sp" using n by (rule normalized_hd_sp)
  then have i: "0 < i" using assms(3) n(2) by (cases i) (auto simp: hd_conv_nth)
  have "ws (take i s @ drop i s)" using n(1) by (simp add: normalized_def)
  moreover have "hd (drop i s) = sp" using assms(2,3) by (simp add: hd_drop_conv_nth)
  moreover have "take i s \<noteq> []" "drop i s \<noteq> []" using i assms(2) n(2) by auto
  ultimately have "last (take i s) \<noteq> sp" by (auto simp only: ws_append)
  with assms(1) i assms(2) show ?thesis by (rule prefix_opened)
qed

lemma take_at_space:
  "sentences_ok L \<Longrightarrow> distinct L \<Longrightarrow> i < length (py_join '' '' L) \<Longrightarrow>
   py_join '' '' L ! i = sp \<Longrightarrow>
   \<exists>L'. sentences_ok L' \<and> distinct L' \<and> take i (py_join '' '' L) = py_join '' '' L' \<and>
        (\<forall>x\<in>set L'. x \<in> set L \<or> opened x)"
proof (induction L arbitrary: i rule: sentences_ok.induct)
  case 1
  then show ?case by simp
next
  case (2 s)
  then have "opened (take i s)" using prefix_at_space [of s i] by simp
  then have "sentences_ok [take i s] \<and> distinct [take i s] \<and>
     take i (py_join '' '' [s]) = py_join '' '' [take i s] \<and>
     (\<forall>x\<in>set [take i s]. x \<in> set [s] \<or> opened x)" by simp
  then show ?case by blast
next
  case (3 s t ts)
  let ?R = "py_join '' '' (t # ts)"
  from "3.prems" have c: "closed s" and ok: "sentences_ok (t # ts)" by simp_all
  have j: "py_join '' '' (s # t # ts) = s @ sp # ?R" by simp
  consider "i < length s" | "i = length s" | "length s < i" by linarith
  then show ?case
  proof cases
    case 1
    with "3.prems"(4) have "s ! i = sp" by (simp add: nth_append)
    with c 1 have "opened (take i s)" using prefix_at_space [of s i] by simp
    with 1 have "sentences_ok [take i s] \<and> distinct [take i s] \<and>
      take i (py_join '' '' (s # t # ts)) = py_join '' '' [take i s] \<and>
      (\<forall>x\<in>set [take i s]. x \<in> set (s # t # ts) \<or> opened x)" by simp
    then show ?thesis by blast
  next
    case 2
    with c have "sentences_ok [s] \<and> distinct [s] \<and>
      take i (py_join '' '' (s # t # ts)) = py_join '' '' [s] \<and>
      (\<forall>x\<in>set [s]. x \<in> set (s # t # ts) \<or> opened x)" by simp
    then show ?thesis by blast
  next
    case 3
    let ?k = "i - length s - 1"
    from 3 "3.prems"(3) have k: "?k < length ?R" by simp
    from 3 "3.prems"(4) have ks: "?R ! ?k = sp"
      by (simp add: nth_append nth_Cons')
    from "3.IH" [OF ok _ k ks] "3.prems"(2)
    obtain L' where L': "sentences_ok L'" "distinct L'" "take ?k ?R = py_join '' '' L'"
      "\<forall>x\<in>set L'. x \<in> set (t # ts) \<or> opened x" by auto
    have R: "normalized ?R" "?R \<noteq> []" using ok_join_normalized [OF ok] by simp_all
    have "?k \<noteq> 0"
    proof
      assume "?k = 0"
      with ks have "hd ?R = sp" using R(2) by (simp add: hd_conv_nth)
      with normalized_hd_sp [OF R] show False by simp
    qed
    with L'(3) R(2) have ne: "L' \<noteq> []" by (cases L') auto
    have t: "take i (py_join '' '' (s # t # ts)) = s @ sp # take ?k ?R"
      using 3 by (simp add: take_Cons')
    have "s \<notin> set L'"
    proof
      assume "s \<in> set L'"
      with L'(4) have "s \<in> set (t # ts) \<or> opened s" by blast
      with "3.prems"(2) closed_not_opened [OF c] show False by auto
    qed
    with L' ne c t have "sentences_ok (s # L') \<and> distinct (s # L') \<and>
      take i (py_join '' '' (s # t # ts)) = py_join '' '' (s # L') \<and>
      (\<forall>x\<in>set (s # L'). x \<in> set (s # t # ts) \<or> opened x)"
      by (auto simp: sentences_ok_Cons join_Cons)
    then show ?thesis by blast
  qed
qed

lemma stable_take_at_space:
  "stable r \<Longrightarrow> i < length r \<Longrightarrow> r ! i = sp \<Longrightarrow> stable (take i r)"
  unfolding stable_def using take_at_space by blast

lemma stable_take_no_space:
  assumes "stable r" "n \<le> length r" "sp \<notin> set (take n r)"
  shows "stable (take n r)"
proof (cases "n = 0")
  case True
  then show ?thesis unfolding stable_def by (intro exI [of _ "[]"]) simp
next
  case False
  from assms(1) obtain L where L: "sentences_ok L" "distinct L" "r = py_join '' '' L"
    by (auto simp: stable_def)
  from False assms(2) L(3) obtain s rest where sr: "L = s # rest" by (cases L) auto
  have s: "closed s \<or> opened s" using L(1) sr by (auto dest: sentences_ok_hd)
  have ns: "n \<le> length s" and ts: "take n r = take n s"
  proof -
    show "n \<le> length s"
    proof (rule ccontr)
      assume a: "\<not> n \<le> length s"
      show False
      proof (cases rest)
        case Nil
        with a assms(2) L(3) sr show False by simp
      next
        case (Cons t ts)
        with L(3) sr have "r = s @ sp # py_join '' '' (t # ts)" by simp
        with a have "sp \<in> set (take n r)" by (auto simp: take_Cons')
        with assms(3) show False by simp
      qed
    qed
    then show "take n r = take n s" using L(3) sr by (cases rest) auto
  qed
  have "closed (take n s) \<or> opened (take n s)"
  proof (cases "n = length s")
    case True
    with s show ?thesis by simp
  next
    case False
    with ns have lt: "n < length s" by simp
    have "last (take n s) \<in> set (take n s)" using \<open>n \<noteq> 0\<close> lt by (auto intro: last_in_set)
    with assms(3) ts have "last (take n s) \<noteq> sp" by auto
    with s \<open>n \<noteq> 0\<close> lt show ?thesis using prefix_opened [of s n] by simp
  qed
  then have "sentences_ok [take n s] \<and> distinct [take n s] \<and> take n r = py_join '' '' [take n s]"
    using ts by simp
  then show ?thesis unfolding stable_def by blast
qed

lemma last_index_None: "last_index c xs = None \<longleftrightarrow> c \<notin> set xs"
  by (induction xs) (auto split: option.splits)

lemma last_index_Some:
  "last_index c xs = Some i \<Longrightarrow>
   i < length xs \<and> xs ! i = c \<and> (\<forall>j. i < j \<and> j < length xs \<longrightarrow> xs ! j \<noteq> c)"
proof (induction xs arbitrary: i)
  case Nil
  then show ?case by simp
next
  case (Cons x xs)
  show ?case
  proof (cases "last_index c xs")
    case None
    with Cons.prems have i: "i = 0" "x = c" by (auto split: if_splits)
    from None have "c \<notin> set xs" by (simp add: last_index_None)
    then have "\<forall>j. 0 < j \<and> j < length (x # xs) \<longrightarrow> (x # xs) ! j \<noteq> c"
      by (auto simp: nth_Cons' )
    with i show ?thesis by simp
  next
    case (Some k)
    with Cons.prems have i: "i = Suc k" by simp
    from Cons.IH [OF Some] have k: "k < length xs" "xs ! k = c"
      "\<forall>j. k < j \<and> j < length xs \<longrightarrow> xs ! j \<noteq> c" by auto
    have "\<forall>j. Suc k < j \<and> j < length (x # xs) \<longrightarrow> (x # xs) ! j \<noteq> c"
    proof (intro allI impI)
      fix j assume "Suc k < j \<and> j < length (x # xs)"
      then have "k < j - 1 \<and> j - 1 < length xs" "j \<noteq> 0" by auto
      with k(3) show "(x # xs) ! j \<noteq> c" by (simp add: nth_Cons')
    qed
    with i k show ?thesis by simp
  qed
qed


lemma py_take_nat: "0 \<le> n \<Longrightarrow> py_take n xs = take (nat n) xs"
  by (simp add: py_take_def slice_end_def min_def)

lemma truncate_fits: "int (length r) \<le> n \<Longrightarrow> truncate_result r n = r"
  by (simp add: truncate_result_def)

lemma truncate_hard:
  "0 \<le> n \<Longrightarrow> n < int (length r) \<Longrightarrow> last_index sp (take (nat n) r) = None \<Longrightarrow>
   truncate_result r n = take (nat n) r"
  by (simp add: truncate_result_def py_rfind_def py_take_nat Let_def)

lemma truncate_space:
  "0 \<le> n \<Longrightarrow> n < int (length r) \<Longrightarrow> last_index sp (take (nat n) r) = Some i \<Longrightarrow>
   truncate_result r n = py_rstrip (take i r)"
  by (simp add: truncate_result_def py_rfind_def py_take_nat Let_def)

lemma truncate_stable:
  assumes "stable r" "0 \<le> n"
  shows "stable (truncate_result r n) \<and> int (length (truncate_result r n)) \<le> n"
proof (cases "int (length r) \<le> n")
  case True
  with assms(1) show ?thesis by (simp add: truncate_fits)
next
  case False
  then have lt: "n < int (length r)" by simp
  then have m: "nat n \<le> length r" by simp
  show ?thesis
  proof (cases "last_index sp (take (nat n) r)")
    case None
    then have "sp \<notin> set (take (nat n) r)" by (simp add: last_index_None)
    from stable_take_no_space [OF assms(1) m this] truncate_hard [OF assms(2) lt None] assms(2)
    show ?thesis by simp
  next
    case (Some i)
    from last_index_Some [OF Some] have i: "i < nat n" "i < length r" "r ! i = sp" by auto
    from stable_take_at_space [OF assms(1) i(2,3)] have s: "stable (take i r)" .
    then have "py_rstrip (take i r) = take i r"
      using stable_normalized [of "take i r"] by (simp add: normalized_def rstrip_id)
    with s i truncate_space [OF assms(2) lt Some] show ?thesis by simp
  qed
qed

lemma compress_text_core:
  "0 \<le> n \<Longrightarrow> stable (compress_text t n) \<and> int (length (compress_text t n)) \<le> n"
  using truncate_stable [OF core_stable] by (simp add: compress_text_scan)


text \<open>
  Claim C3, as the code has it. \<open>compress_text\<close> is idempotent for every text and every
  budget that is not negative: compressing the result again with the same budget
  changes nothing.
\<close>

theorem compress_text_idempotent:
  assumes "0 \<le> n"
  shows "compress_text (compress_text t n) n = compress_text t n"
proof -
  from compress_text_core [OF assms, of t]
  have s: "stable (compress_text t n)" and l: "int (length (compress_text t n)) \<le> n" by simp_all
  from compress_text_stable [OF s, of n] truncate_fits [OF l] show ?thesis by simp
qed

theorem compress_text_idempotent_witness:
  "(0::int) \<le> 4 \<and> compress_text ''abcdefgh. b'' 4 = ''abcd'' \<and>
   compress_text (compress_text ''abcdefgh. b'' 4) 4 = compress_text ''abcdefgh. b'' 4"
proof -
  have v: "compress_text ''abcdefgh. b'' 4 = ''abcd''" by code_simp
  from compress_text_idempotent [of 4 "''abcdefgh. b''"] v show ?thesis by simp
qed

text \<open>
  Claim C3 as stated fails for a negative budget: \<open>result[:-1]\<close> drops the last
  character, each time the function is applied.
\<close>

theorem compress_text_negative_budget:
  "compress_text ''abc'' (- 1) = ''ab'' \<and> compress_text (compress_text ''abc'' (- 1)) (- 1) = ''a''"
  by code_simp




end
